theory Spec2Isabelle
  imports Main "HOL-Library.AList" "HOL-Library.Multiset"
begin

section \<open>Python values used by layer.py\<close>

subsection \<open>Dictionaries, key views and sets\<close>

text \<open>
  A dict comprehension \<^verbatim>\<open>{key(x): x for x in xs}\<close> inserts its entries from left to
  right; a key met again keeps its place and takes the later value. That is
  \<open>AList.update\<close> folded over the list.
\<close>

definition dict_comp :: "('a \<Rightarrow> 'k) \<Rightarrow> 'a list \<Rightarrow> ('k \<times> 'a) list" where
  "dict_comp key xs = foldl (\<lambda>d x. AList.update (key x) x d) [] xs"

text \<open>\<^verbatim>\<open>d.keys()\<close>, read as a set (the operators \<^verbatim>\<open>^\<close> and \<^verbatim>\<open>&\<close> take it as one).\<close>

definition keys :: "('k \<times> 'a) list \<Rightarrow> 'k set" where
  "keys d = set (map fst d)"

text \<open>\<^verbatim>\<open>d.get(k)\<close>: the value, or Python's \<^verbatim>\<open>None\<close>.\<close>

definition dict_get :: "('k \<times> 'a) list \<Rightarrow> 'k \<Rightarrow> 'a option" where
  "dict_get d k = map_of d k"

text \<open>Truth value of a set in a condition: a set is true when it is not empty.\<close>

definition truthy :: "'a set \<Rightarrow> bool" where
  "truthy S = (\<not> Set.is_empty S)"

text \<open>
  Python leaves the order in which a set is iterated open. The model takes the order as
  a parameter \<open>iter\<close>; all it may rely on is that each member of a finite set comes up
  exactly once.
\<close>

definition set_iteration :: "('a set \<Rightarrow> 'a list) \<Rightarrow> bool" where
  "set_iteration iter = (\<forall>S. finite S \<longrightarrow> set (iter S) = S \<and> distinct (iter S))"

section \<open>The data of the session reconciler\<close>

text \<open>
  \<^verbatim>\<open>xutil.get_parent_window_infos\<close> returns objects with a \<^verbatim>\<open>window_id\<close>; a window of the
  registry has a \<^verbatim>\<open>parent_id\<close>. What else they hold is not read by layer.py and stays a
  type parameter. Two windows are the same object exactly when they are equal here.
\<close>

record 'a window_info =
  window_id :: int
  info_rest :: 'a

record 'h window =
  parent_id :: int
  window_rest :: 'h

text \<open>\<^verbatim>\<open>class View\<close>: offset, media, screen_width, screen_height.\<close>

record ('o, 'm) view =
  offset :: 'o
  media :: 'm
  screen_width :: int
  screen_height :: int

text \<open>
  Modelled from the spec: \<^verbatim>\<open>ui.CanvasWindow.Factory.create\<close> is not part of the sources.
  The spec gives the collaborator as \<^verbatim>\<open>createWindows(parentInfos) -> [Window]\<close>, one window
  per parent surface, anchored to it (its \<^verbatim>\<open>parentId\<close>). The rest of a new window is
  the parameter \<open>mk\<close>. An argument that is \<^verbatim>\<open>None\<close> is no parent info: the call does not
  return a list then.
\<close>

definition new_window :: "('a window_info \<Rightarrow> 'h) \<Rightarrow> 'a window_info \<Rightarrow> 'h window" where
  "new_window mk i = \<lparr>parent_id = window_id i, window_rest = mk i\<rparr>"

definition create ::
  "('a window_info \<Rightarrow> 'h) \<Rightarrow> 'a window_info option list \<Rightarrow> 'h window list option" where
  "create mk infos = map_option (map (new_window mk)) (those infos)"

text \<open>
  Modelled from the spec: \<^verbatim>\<open>batch.BatchList\<close> is not part of the sources. The spec gives the
  registry as an ordered collection with \<^verbatim>\<open>registry += newWindows\<close> and
  \<^verbatim>\<open>registry -= deadWindows\<close>, where removing what is not present is a no-op.
\<close>

definition batch_iadd :: "'w list \<Rightarrow> 'w list \<Rightarrow> 'w list" where
  "batch_iadd ws new = ws @ new"

definition batch_remove :: "'w list \<Rightarrow> 'w option \<Rightarrow> 'w list" where
  "batch_remove ws x = (case x of None \<Rightarrow> ws | Some w \<Rightarrow> remove1 w ws)"

definition batch_isub :: "'w list \<Rightarrow> 'w option list \<Rightarrow> 'w list" where
  "batch_isub ws gone = foldl batch_remove ws gone"

section \<open>query_windows\<close>

text \<open>
  The two intersections of lines 65 and 66, as functions of the two key views
  (\<open>parent_window_ids\<close> of the live clients, \<open>current_window_ids\<close> of the registry).
\<close>

definition added_window_ids :: "int set \<Rightarrow> int set \<Rightarrow> int set" where
  "added_window_ids parent_window_ids current_window_ids =
     sym_diff parent_window_ids current_window_ids \<inter> parent_window_ids"

definition removed_window_ids :: "int set \<Rightarrow> int set \<Rightarrow> int set" where
  "removed_window_ids parent_window_ids current_window_ids =
     sym_diff parent_window_ids current_window_ids \<inter> current_window_ids"

text \<open>
  What one call leaves behind: the registry and the view after it, the windows the
  factory returned, the list handed to \<^verbatim>\<open>windows -= ...\<close>, and how often
  \<^verbatim>\<open>windows.draw()\<close> ran.
\<close>

record ('h, 'o, 'm) reconciled =
  registry :: "'h window list"
  view_after :: "('o, 'm) view"
  created :: "'h window list"
  removed :: "'h window option list"
  draws :: nat

text \<open>
  \<^verbatim>\<open>query_windows(display, window_factory, windows, view)\<close>. The arguments
  \<open>parent_window_infos\<close> and \<open>get_offset\<close> are what
  \<^verbatim>\<open>xutil.get_parent_window_infos(display)\<close> and \<^verbatim>\<open>tmux_util.get_offset()\<close> return in this call.
  The result is \<open>None\<close> only if the factory is handed a \<^verbatim>\<open>None\<close>.
\<close>

definition query_windows ::
  "(int set \<Rightarrow> int list) \<Rightarrow> ('a window_info \<Rightarrow> 'h) \<Rightarrow> 'a window_info list \<Rightarrow> 'o \<Rightarrow>
   'h window list \<Rightarrow> ('o, 'm) view \<Rightarrow> ('h, 'o, 'm) reconciled option" where
  "query_windows iter mk parent_window_infos get_offset windows view =
    (let view = view\<lparr>offset := get_offset\<rparr>;
         map_parent_window_id_info = dict_comp window_id parent_window_infos;
         parent_window_ids = keys map_parent_window_id_info;
         map_current_windows = dict_comp parent_id windows;
         current_window_ids = keys map_current_windows;
         added = added_window_ids parent_window_ids current_window_ids;
         gone = removed_window_ids parent_window_ids current_window_ids;
         draw = (truthy added \<or> truthy gone)
     in case (if truthy added
              then create mk (map (dict_get map_parent_window_id_info) (iter added))
              else Some []) of
          None \<Rightarrow> None
        | Some new \<Rightarrow>
            (let windows = batch_iadd windows new;
                 dead = (if truthy gone
                         then map (dict_get map_current_windows) (iter gone)
                         else []);
                 windows = batch_isub windows dead
             in Some \<lparr>registry = windows, view_after = view, created = new,
                       removed = dead, draws = (if draw then 1 else 0)\<rparr>))"

section \<open>The command dispatcher\<close>

subsection \<open>Exceptions\<close>

text \<open>
  An exception object, as far as layer.py reads it: the name of its class
  (\<^verbatim>\<open>type(e).__name__\<close>), the names of the other classes of its \<^verbatim>\<open>__mro__\<close>, and \<^verbatim>\<open>str(e)\<close>.
\<close>

record py_exception =
  exc_name :: string
  exc_bases :: "string list"
  exc_str :: string

definition isinstance :: "py_exception \<Rightarrow> string \<Rightarrow> bool" where
  "isinstance e c = (c = exc_name e \<or> c \<in> set (exc_bases e))"

text \<open>\<^verbatim>\<open>except (OSError, KeyError, ValueError, TypeError) as error\<close>\<close>

definition caught :: "py_exception \<Rightarrow> bool" where
  "caught e = (isinstance e ''OSError'' \<or> isinstance e ''KeyError'' \<or>
               isinstance e ''ValueError'' \<or> isinstance e ''TypeError'')"

text \<open>\<^verbatim>\<open>data[k]\<close> on a dict without the key raises \<^verbatim>\<open>KeyError(k)\<close>; its \<^verbatim>\<open>str\<close> is \<^verbatim>\<open>repr(k)\<close>.\<close>

definition key_error :: "string \<Rightarrow> py_exception" where
  "key_error k = \<lparr>exc_name = ''KeyError'',
                  exc_bases = [''LookupError'', ''Exception'', ''BaseException'', ''object''],
                  exc_str = CHR 0x27 # k @ [CHR 0x27]\<rparr>"

text \<open>
  The exception a task meets at an \<^verbatim>\<open>await\<close> when its cancellation was requested.
\<close>

definition cancelled_error :: py_exception where
  "cancelled_error = \<lparr>exc_name = ''CancelledError'',
                      exc_bases = [''BaseException'', ''object''], exc_str = []\<rparr>"

definition runtime_error :: "string \<Rightarrow> py_exception" where
  "runtime_error msg = \<lparr>exc_name = ''RuntimeError'',
                          exc_bases = [''Exception'', ''BaseException'', ''object''],
                          exc_str = msg\<rparr>"

text \<open>
  An exception on its way out of a coroutine: a \<^verbatim>\<open>StopIteration\<close> does not leave it, Python
  raises \<^verbatim>\<open>RuntimeError('coroutine raised StopIteration')\<close> in its place; any other
  exception leaves as it is.
\<close>

definition leave_coroutine :: "py_exception option \<Rightarrow> py_exception option" where
  "leave_coroutine r =
     (case r of
        None \<Rightarrow> None
      | Some e \<Rightarrow>
          if isinstance e ''StopIteration''
          then Some (runtime_error ''coroutine raised StopIteration'')
          else Some e)"

subsection \<open>Tools, codec and actions\<close>

text \<open>
  The codec (\<^verbatim>\<open>ueberzug.parser\<close>, not part of the sources) is a parameter: \<open>parse\<close> returns
  a mapping of named fields or raises, \<open>unparse\<close> writes a mapping as one line.
\<close>

record 'v parser =
  parse :: "string \<Rightarrow> py_exception + (string \<rightharpoonup> 'v)"
  unparse :: "(string \<times> string) list \<Rightarrow> string"

text \<open>\<^verbatim>\<open>class Tools\<close>. The error handler acts on what was printed to standard error.\<close>

record ('l, 'v) tools =
  loader :: 'l
  parser :: "'v parser"
  error_handler :: "py_exception \<Rightarrow> string list \<Rightarrow> string list"

text \<open>
  \<^verbatim>\<open>process_error(parser, exception)\<close>: one \<^verbatim>\<open>print(..., file=sys.stderr)\<close> of the unparsed
  mapping. Standard error is the list of the strings printed so far.
\<close>

definition process_error :: "'v parser \<Rightarrow> py_exception \<Rightarrow> string list \<Rightarrow> string list" where
  "process_error p exception stderr =
     stderr @ [unparse p [(''type'', ''error''), (''name'', exc_name exception),
                          (''message'', exc_str exception)]]"

definition error_processor_factory ::
  "'v parser \<Rightarrow> py_exception \<Rightarrow> string list \<Rightarrow> string list" where
  "error_processor_factory p = (\<lambda>exception. process_error p exception)"

text \<open>
  \<^verbatim>\<open>ueberzug.action\<close> is not part of the sources and is a parameter: \<open>command\<close> is
  \<^verbatim>\<open>action.Command(...)\<close>, \<open>action_apply\<close> is
  \<^verbatim>\<open>command.action_class(**data).apply(windows, view, tools)\<close>, awaited; it works on the
  shared state \<open>'s\<close> and may raise after having changed it.
\<close>

record ('v, 'c, 's) action_module =
  command :: "'v \<Rightarrow> py_exception + 'c"
  action_apply :: "'c \<Rightarrow> (string \<rightharpoonup> 'v) \<Rightarrow> 's \<Rightarrow> py_exception option \<times> 's"

text \<open>
  What the dispatcher works on: the shared state of the actions, what was printed to
  standard error, and the strings handed to \<open>parse\<close> so far.
\<close>

record 's dispatcher =
  app :: 's
  err_out :: "string list"
  codec_in :: "string list"

subsection \<open>The scheduler, as far as tasks are created\<close>

datatype coroutine =
  Process_xevents | Process_commands | Query_windows | Reset_terminal_info | Shutdown

datatype awaitable = Coro coroutine | Fut nat

record loop =
  tasks :: "(nat \<times> coroutine) list"
  next_task :: nat

text \<open>
  \<^verbatim>\<open>asyncio.ensure_future\<close>: a coroutine is wrapped in a new task, which is scheduled; a
  future is returned as it is.
\<close>

definition ensure_future :: "awaitable \<Rightarrow> loop \<Rightarrow> nat \<times> loop" where
  "ensure_future a l =
     (case a of
        Fut t \<Rightarrow> (t, l)
      | Coro c \<Rightarrow> (next_task l,
                    l\<lparr>tasks := tasks l @ [(next_task l, c)], next_task := Suc (next_task l)\<rparr>))"

text \<open>
  A call of the function that \<^verbatim>\<open>shutdown_factory(loop)\<close> returns:
  \<^verbatim>\<open>asyncio.ensure_future(shutdown(loop))\<close>.
\<close>

definition shutdown_factory :: "loop \<Rightarrow> awaitable \<times> loop" where
  "shutdown_factory l = (let (t, l') = ensure_future (Coro Shutdown) l in (Fut t, l'))"

subsection \<open>process_commands\<close>

text \<open>\<^verbatim>\<open>re.sub("\\\\[$]", "$", line)\<close>: from the left, each backslash followed by a dollar
  becomes a dollar; the scan goes on behind the match.\<close>

fun unescape :: "string \<Rightarrow> string" where
  "unescape (c # d # cs) =
     (if c = CHR 0x5C \<and> d = CHR ''$'' then CHR ''$'' # unescape cs else c # unescape (d # cs))"
| "unescape cs = cs"

text \<open>The \<^verbatim>\<open>except\<close> clause of line 44: report and go on, or let the exception pass.\<close>

definition except_clause ::
  "('l, 'v) tools \<Rightarrow> py_exception \<Rightarrow> 's dispatcher \<Rightarrow> py_exception option \<times> 's dispatcher" where
  "except_clause tools error d =
     (if caught error then (None, d\<lparr>err_out := error_handler tools error (err_out d)\<rparr>)
      else (Some error, d))"

text \<open>Lines 40 to 43, the body of the inner \<^verbatim>\<open>try\<close>: the exception it raises, if any.\<close>

definition line_body ::
  "('l, 'v) tools \<Rightarrow> ('v, 'c, 's) action_module \<Rightarrow> string \<Rightarrow> 's dispatcher \<Rightarrow>
   py_exception option \<times> 's dispatcher" where
  "line_body tools acts line d =
     (let line = unescape line;
          arg = butlast line;
          d = d\<lparr>codec_in := codec_in d @ [arg]\<rparr>
      in case parse (parser tools) arg of
           Inl e \<Rightarrow> (Some e, d)
         | Inr data \<Rightarrow>
             (case data ''action'' of
                None \<Rightarrow> (Some (key_error ''action''), d)
              | Some a \<Rightarrow>
                  (case command acts a of
                     Inl e \<Rightarrow> (Some e, d)
                   | Inr c \<Rightarrow>
                       (case action_apply acts c data (app d) of
                          (r, s) \<Rightarrow> (r, d\<lparr>app := s\<rparr>)))))"

definition process_line ::
  "('l, 'v) tools \<Rightarrow> ('v, 'c, 's) action_module \<Rightarrow> string \<Rightarrow> 's dispatcher \<Rightarrow>
   py_exception option \<times> 's dispatcher" where
  "process_line tools acts line d =
     (case line_body tools acts line d of
        (None, d') \<Rightarrow> (None, d')
      | (Some error, d') \<Rightarrow> except_clause tools error d')"

text \<open>
  The \<^verbatim>\<open>async for\<close> loop over \<^verbatim>\<open>files.LineReader(loop, sys.stdin)\<close>. The reader is given by
  what its awaits yield, one after the other: a line (\<open>Inr\<close>), as \<^verbatim>\<open>readline\<close> gives it, with
  its newline, or an exception raised at the await (\<open>Inl\<close>; a cancellation arrives so).
  \<^verbatim>\<open>StopAsyncIteration\<close> at the await ends an \<^verbatim>\<open>async for\<close> as the end of the list does.
  The result is the exception that leaves the loop, if any.
\<close>

fun read_loop ::
  "('l, 'v) tools \<Rightarrow> ('v, 'c, 's) action_module \<Rightarrow> (py_exception + string) list \<Rightarrow>
   's dispatcher \<Rightarrow> py_exception option \<times> 's dispatcher" where
  "read_loop tools acts [] d = (None, d)"
| "read_loop tools acts (Inl e # rest) d =
     (if isinstance e ''StopAsyncIteration'' then (None, d) else (Some e, d))"
| "read_loop tools acts (Inr line # rest) d =
     (if line = [] then (None, d)
      else case process_line tools acts line d of
             (Some e, d') \<Rightarrow> (Some e, d')
           | (None, d') \<Rightarrow> read_loop tools acts rest d')"

text \<open>
  \<^verbatim>\<open>process_commands\<close>: the loop, then the \<^verbatim>\<open>finally\<close> clause
  \<^verbatim>\<open>asyncio.ensure_future(shutdown_routine_factory())\<close>, then the exception, if any, leaves
  the coroutine.
\<close>

definition process_commands ::
  "('l, 'v) tools \<Rightarrow> ('v, 'c, 's) action_module \<Rightarrow> (loop \<Rightarrow> awaitable \<times> loop) \<Rightarrow>
   (py_exception + string) list \<Rightarrow> 's dispatcher \<Rightarrow> loop \<Rightarrow>
   py_exception option \<times> 's dispatcher \<times> loop" where
  "process_commands tools acts shutdown_routine_factory lines d l =
     (let (r, d') = read_loop tools acts lines d;
          (a, l') = shutdown_routine_factory l;
          (t, l'') = ensure_future a l'
      in (leave_coroutine r, d', l''))"

section \<open>The display-event reactor\<close>

text \<open>
  The display and the windows' \<^verbatim>\<open>process_event\<close> are not part of the sources and are
  parameters: \<open>pe w dpy\<close> is one window's \<^verbatim>\<open>process_event()\<close>, which says whether the window
  claimed an event and may change the window and the connection; \<open>de\<close> is
  \<^verbatim>\<open>display.discard_event()\<close>. \<open>discards\<close> counts the calls of the latter.
\<close>

record ('w, 'd) reactor =
  xwindows :: "'w list"
  xdisplay :: 'd
  discards :: nat

text \<open>
  Modelled from the spec: \<^verbatim>\<open>windows.process_event()\<close> of \<^verbatim>\<open>batch.BatchList\<close> offers the
  event to every window of the registry, in order, and returns the list of answers.
\<close>

fun batch_process_event ::
  "('w \<Rightarrow> 'd \<Rightarrow> bool \<times> 'w \<times> 'd) \<Rightarrow> 'w list \<Rightarrow> 'd \<Rightarrow> bool list \<times> 'w list \<times> 'd" where
  "batch_process_event pe [] dpy = ([], [], dpy)"
| "batch_process_event pe (w # ws) dpy =
     (case pe w dpy of
        (b, w', dpy') \<Rightarrow>
          (case batch_process_event pe ws dpy' of
             (bs, ws', dpy'') \<Rightarrow> (b # bs, w' # ws', dpy'')))"

text \<open>Python's \<^verbatim>\<open>any\<close> on a list of truth values.\<close>

definition any :: "bool list \<Rightarrow> bool" where
  "any bs = (True \<in> set bs)"

text \<open>The body of the loop of \<^verbatim>\<open>process_xevents\<close>, run once per event.\<close>

definition process_xevent ::
  "('w \<Rightarrow> 'd \<Rightarrow> bool \<times> 'w \<times> 'd) \<Rightarrow> ('d \<Rightarrow> 'd) \<Rightarrow> ('w, 'd) reactor \<Rightarrow> ('w, 'd) reactor" where
  "process_xevent pe de s =
     (case batch_process_event pe (xwindows s) (xdisplay s) of
        (claims, ws, dpy) \<Rightarrow>
          (if \<not> any claims
           then \<lparr>xwindows = ws, xdisplay = de dpy, discards = Suc (discards s)\<rparr>
           else \<lparr>xwindows = ws, xdisplay = dpy, discards = discards s\<rparr>))"

text \<open>The answers the windows give to the next event.\<close>

definition claims :: "('w \<Rightarrow> 'd \<Rightarrow> bool \<times> 'w \<times> 'd) \<Rightarrow> ('w, 'd) reactor \<Rightarrow> bool list" where
  "claims pe s = fst (batch_process_event pe (xwindows s) (xdisplay s))"

text \<open>
  \<^verbatim>\<open>process_xevents\<close> over the first \<open>n\<close> events that \<^verbatim>\<open>xutil.Events\<close> yields (the iterator
  itself never ends).
\<close>

fun process_xevents ::
  "('w \<Rightarrow> 'd \<Rightarrow> bool \<times> 'w \<times> 'd) \<Rightarrow> ('d \<Rightarrow> 'd) \<Rightarrow> nat \<Rightarrow> ('w, 'd) reactor \<Rightarrow> ('w, 'd) reactor" where
  "process_xevents pe de 0 s = s"
| "process_xevents pe de (Suc n) s = process_xevents pe de n (process_xevent pe de s)"

text \<open>How many of the first \<open>n\<close> events no window claims.\<close>

fun unclaimed ::
  "('w \<Rightarrow> 'd \<Rightarrow> bool \<times> 'w \<times> 'd) \<Rightarrow> ('d \<Rightarrow> 'd) \<Rightarrow> nat \<Rightarrow> ('w, 'd) reactor \<Rightarrow> nat" where
  "unclaimed pe de 0 s = 0"
| "unclaimed pe de (Suc n) s =
     (if any (claims pe s) then 0 else 1) + unclaimed pe de n (process_xevent pe de s)"

section \<open>The shutdown coordinator\<close>

text \<open>
  A task is known by its number. After its cancellation was requested a task ends by
  returning or by raising (\<open>CancelledError\<close>, as a rule), or it never ends (\<open>None\<close>).
\<close>

datatype task_result = Returned | Raised py_exception

text \<open>What the coordinator does to the scheduler, in order.\<close>

datatype effect = Cancel nat | Gather "nat list" | Loop_stop

text \<open>
  \<^verbatim>\<open>await asyncio.gather(*tasks, return_exceptions=True)\<close>: goes on once every task has
  ended, with the list of results, the exceptions among them as values.
\<close>

definition gather :: "task_result option list \<Rightarrow> task_result list option" where
  "gather outs = those outs"

text \<open>
  \<^verbatim>\<open>shutdown(loop)\<close>. \<open>all_tasks\<close> is what \<^verbatim>\<open>asyncio.all_tasks()\<close> gives (either API), in the
  order the list comprehension meets it; \<open>outcome\<close> says how each task ends once
  cancelled; \<open>cancelled\<close> says whether this task is itself cancelled while it waits in
  \<^verbatim>\<open>gather\<close>. The result is the list of effects and how the call ends: \<open>None\<close> if it
  waits for ever, \<open>Some None\<close> if it returns, \<open>Some (Some e)\<close> if it raises \<open>e\<close>.
\<close>

definition shutdown ::
  "nat list \<Rightarrow> nat \<Rightarrow> (nat \<Rightarrow> task_result option) \<Rightarrow> bool \<Rightarrow>
   effect list \<times> py_exception option option" where
  "shutdown all_tasks current_task outcome cancelled =
     (let tasks = filter (\<lambda>task. task \<noteq> current_task) all_tasks;
          sofar = map Cancel tasks @ [Gather tasks]
      in if cancelled then (sofar, Some (Some cancelled_error))
         else case gather (map outcome tasks) of
                None \<Rightarrow> (sofar, None)
              | Some results \<Rightarrow> (sofar @ [Loop_stop], Some None))"

section \<open>A small codec and action set for concrete runs\<close>

text \<open>
  Stand-ins for the collaborators, used where a statement is run on a concrete input:
  a codec that reads a non-empty line as the value of the field \<^verbatim>\<open>action\<close>, two known
  commands of which \<^verbatim>\<open>crash\<close> raises a \<^verbatim>\<open>RuntimeError\<close>, and tools wired as \<^verbatim>\<open>main\<close> wires them
  (lines 223 to 227).
\<close>

definition value_error :: "string \<Rightarrow> py_exception" where
  "value_error msg = \<lparr>exc_name = ''ValueError'',
                        exc_bases = [''Exception'', ''BaseException'', ''object''],
                        exc_str = msg\<rparr>"

definition example_parser :: "string parser" where
  "example_parser =
     \<lparr>parse = (\<lambda>s. if s = [] then Inl (value_error ''empty'') else Inr [''action'' \<mapsto> s]),
      unparse = (\<lambda>r. concat (map (\<lambda>(k, v). k @ ''='' @ v @ '';'') r))\<rparr>"

definition example_tools :: "(unit, string) tools" where
  "example_tools = \<lparr>loader = (), parser = example_parser,
                     error_handler = error_processor_factory example_parser\<rparr>"

definition example_actions :: "(string, string, string list) action_module" where
  "example_actions =
     \<lparr>command = (\<lambda>a. if a = ''add'' \<or> a = ''crash'' then Inr a else Inl (value_error a)),
      action_apply = (\<lambda>c data s. if c = ''crash'' then (Some (runtime_error ''crash''), s)
                                  else (None, s @ [c]))\<rparr>"

definition example_dispatcher :: "string list dispatcher" where
  "example_dispatcher = \<lparr>app = [], err_out = [], codec_in = []\<rparr>"

text \<open>
  A connection whose queue holds, for each event, the number of the window it is for;
  a window is its number. A window claims the event at the head of the queue when it is
  its own, and takes it from the queue; \<^verbatim>\<open>discard_event\<close> drops the head.
\<close>

definition example_process_event :: "nat \<Rightarrow> nat list \<Rightarrow> bool \<times> nat \<times> nat list" where
  "example_process_event w q =
     (case q of [] \<Rightarrow> (False, w, q)
      | e # q' \<Rightarrow> if e = w then (True, w, q') else (False, w, q))"

definition example_discard_event :: "nat list \<Rightarrow> nat list" where
  "example_discard_event q = tl q"

section \<open>Facts about the Python values\<close>

lemma map_of_dict_comp_aux:
  "map_of (foldl (\<lambda>d x. AList.update (key x) x d) d0 xs) =
   foldl (\<lambda>m x. m(key x \<mapsto> x)) (map_of d0) xs"
  by (induction xs arbitrary: d0) (simp_all add: update_conv')

lemma keys_foldl_aux:
  "fst ` set (foldl (\<lambda>d x. AList.update (key x) x d) d0 xs) = fst ` set d0 \<union> key ` set xs"
proof (induction xs arbitrary: d0)
  case Nil
  show ?case by simp
next
  case (Cons x xs)
  have "fst ` set (AList.update (key x) x d0) = insert (key x) (fst ` set d0)"
    using dom_update [of "key x" x d0] by (simp add: dom_map_of_conv_image_fst)
  then show ?case using Cons.IH [of "AList.update (key x) x d0"] by auto
qed

lemma keys_dict_comp: "keys (dict_comp key xs) = key ` set xs"
  using keys_foldl_aux [of key "[]" xs] by (simp add: keys_def dict_comp_def)

lemma foldl_upd_Some:
  "foldl (\<lambda>m x. m(key x \<mapsto> x)) m0 xs k = Some y \<Longrightarrow> (y \<in> set xs \<and> key y = k) \<or> m0 k = Some y"
  by (induction xs arbitrary: m0) (fastforce split: if_splits)+

lemma foldl_upd_miss:
  "k \<notin> key ` set xs \<Longrightarrow> foldl (\<lambda>m x. m(key x \<mapsto> x)) m0 xs k = m0 k"
  by (induction xs arbitrary: m0) auto

lemma foldl_upd_hit:
  "k \<in> key ` set xs \<Longrightarrow> \<exists>y. foldl (\<lambda>m x. m(key x \<mapsto> x)) m0 xs k = Some y"
proof (induction xs arbitrary: m0)
  case Nil then show ?case by simp
next
  case (Cons x xs)
  show ?case
  proof (cases "k \<in> key ` set xs")
    case True then show ?thesis using Cons.IH by simp
  next
    case False
    then have kx: "key x = k" using Cons.prems by auto
    have "foldl (\<lambda>m x. m(key x \<mapsto> x)) (m0(key x \<mapsto> x)) xs k = (m0(key x \<mapsto> x)) k"
      using False by (rule foldl_upd_miss)
    then show ?thesis using kx by (simp del: fun_upd_apply add: fun_upd_same)
  qed
qed

lemma foldl_upd_distinct:
  "distinct (map key xs) \<Longrightarrow> x \<in> set xs \<Longrightarrow> foldl (\<lambda>m x. m(key x \<mapsto> x)) m0 xs (key x) = Some x"
proof (induction xs arbitrary: m0)
  case Nil then show ?case by simp
next
  case (Cons a xs)
  show ?case
  proof (cases "x \<in> set xs")
    case True then show ?thesis using Cons by simp
  next
    case False
    then have ax: "a = x" using Cons.prems by simp
    have "key x \<notin> key ` set xs" using Cons.prems ax by auto
    then have "foldl (\<lambda>m x. m(key x \<mapsto> x)) (m0(key x \<mapsto> x)) xs (key x) = (m0(key x \<mapsto> x)) (key x)"
      by (rule foldl_upd_miss)
    then show ?thesis using ax by (simp del: fun_upd_apply add: fun_upd_same)
  qed
qed

lemma dict_get_Some:
  "dict_get (dict_comp key xs) k = Some y \<Longrightarrow> y \<in> set xs \<and> key y = k"
  using foldl_upd_Some [of key Map.empty xs k y]
  by (simp add: dict_get_def dict_comp_def map_of_dict_comp_aux)

lemma dict_get_hit:
  "k \<in> key ` set xs \<Longrightarrow> \<exists>y. dict_get (dict_comp key xs) k = Some y"
  using foldl_upd_hit [of k key xs Map.empty]
  by (simp add: dict_get_def dict_comp_def map_of_dict_comp_aux)

lemma dict_get_distinct:
  "distinct (map key xs) \<Longrightarrow> x \<in> set xs \<Longrightarrow> dict_get (dict_comp key xs) (key x) = Some x"
  using foldl_upd_distinct [of key xs x Map.empty]
  by (simp add: dict_get_def dict_comp_def map_of_dict_comp_aux)

lemma added_window_ids_eq: "added_window_ids P C = P - C"
  by (auto simp: added_window_ids_def)

lemma removed_window_ids_eq: "removed_window_ids P C = C - P"
  by (auto simp: removed_window_ids_def)

lemma lookups_total:
  "set ks \<subseteq> key ` set xs \<Longrightarrow>
   \<exists>ys. map (dict_get (dict_comp key xs)) ks = map Some ys \<and> map key ys = ks \<and> set ys \<subseteq> set xs"
proof (induction ks)
  case Nil
  show ?case by simp
next
  case (Cons k ks)
  then obtain ys where ys: "map (dict_get (dict_comp key xs)) ks = map Some ys"
    "map key ys = ks" "set ys \<subseteq> set xs" by auto
  from Cons.prems obtain y where y: "dict_get (dict_comp key xs) k = Some y"
    using dict_get_hit [of k key xs] by auto
  then have "y \<in> set xs" "key y = k" using dict_get_Some [of key xs k y] by auto
  with ys y have "map (dict_get (dict_comp key xs)) (k # ks) = map Some (y # ys) \<and>
    map key (y # ys) = k # ks \<and> set (y # ys) \<subseteq> set xs" by simp
  then show ?case by (rule exI [where x = "y # ys"])
qed

lemma those_map_Some: "those (map Some ys) = Some ys"
  by (induction ys) simp_all

lemma create_map_Some: "create mk (map Some is) = Some (map (new_window mk) is)"
  by (simp add: create_def those_map_Some)

lemma batch_isub_map_Some:
  "batch_isub ws (map Some ds) = foldl (\<lambda>ws w. remove1 w ws) ws ds"
  by (induction ds arbitrary: ws) (simp_all add: batch_isub_def batch_remove_def)

lemma mset_foldl_remove1:
  "mset (foldl (\<lambda>ws w. remove1 w ws) ws ds) = mset ws - mset ds"
  by (induction ds arbitrary: ws) simp_all

lemma set_foldl_remove1:
  "distinct ws \<Longrightarrow> set (foldl (\<lambda>ws w. remove1 w ws) ws ds) = set ws - set ds \<and>
     distinct (foldl (\<lambda>ws w. remove1 w ws) ws ds)"
  by (induction ds arbitrary: ws) auto

lemma set_iterationD:
  "set_iteration iter \<Longrightarrow> finite S \<Longrightarrow> set (iter S) = S \<and> distinct (iter S)"
  by (simp add: set_iteration_def)

lemma iter_empty: "set_iteration iter \<Longrightarrow> iter {} = []"
  using set_iterationD [of iter "{}"] by simp

lemma truthy_iff: "truthy S \<longleftrightarrow> S \<noteq> {}"
  by (simp add: truthy_def)

lemma query_windows_run:
  assumes it: "set_iteration iter"
  shows "\<exists>fresh dead.
     query_windows iter mk infos off windows view =
       Some \<lparr>registry = foldl (\<lambda>ws w. remove1 w ws) (windows @ map (new_window mk) fresh) dead,
             view_after = view\<lparr>offset := off\<rparr>,
             created = map (new_window mk) fresh,
             removed = map Some dead,
             draws = (if window_id ` set infos = parent_id ` set windows then 0 else 1)\<rparr>
     \<and> map window_id fresh = iter (window_id ` set infos - parent_id ` set windows)
     \<and> set fresh \<subseteq> set infos
     \<and> map parent_id dead = iter (parent_id ` set windows - window_id ` set infos)
     \<and> set dead \<subseteq> set windows"
proof -
  let ?L = "window_id ` set infos" and ?C = "parent_id ` set windows"
  have fin: "finite (?L - ?C)" "finite (?C - ?L)" by simp_all
  have a: "set (iter (?L - ?C)) \<subseteq> window_id ` set infos"
    using set_iterationD [OF it fin(1)] by auto
  have g: "set (iter (?C - ?L)) \<subseteq> parent_id ` set windows"
    using set_iterationD [OF it fin(2)] by auto
  obtain fresh where fresh:
    "map (dict_get (dict_comp window_id infos)) (iter (?L - ?C)) = map Some fresh"
    "map window_id fresh = iter (?L - ?C)" "set fresh \<subseteq> set infos"
    using lookups_total [OF a] by blast
  obtain dead where dead:
    "map (dict_get (dict_comp parent_id windows)) (iter (?C - ?L)) = map Some dead"
    "map parent_id dead = iter (?C - ?L)" "set dead \<subseteq> set windows"
    using lookups_total [OF g] by blast
  have e1: "fresh = []" if "?L - ?C = {}"
  proof -
    have "map window_id fresh = iter {}" using fresh(2) unfolding that .
    then show ?thesis using iter_empty [OF it] by simp
  qed
  have e2: "dead = []" if "?C - ?L = {}"
  proof -
    have "map parent_id dead = iter {}" using dead(2) unfolding that .
    then show ?thesis using iter_empty [OF it] by simp
  qed
  have A: "(if truthy (?L - ?C)
            then create mk (map (dict_get (dict_comp window_id infos)) (iter (?L - ?C)))
            else Some []) = Some (map (new_window mk) fresh)"
  proof (cases "?L - ?C = {}")
    case True
    then show ?thesis using e1 by (simp only: truthy_iff) simp
  next
    case False
    then show ?thesis by (simp only: truthy_iff fresh(1) create_map_Some) simp
  qed
  have B: "(if truthy (?C - ?L)
            then map (dict_get (dict_comp parent_id windows)) (iter (?C - ?L))
            else []) = map Some dead"
  proof (cases "?C - ?L = {}")
    case True
    then show ?thesis using e2 by (simp only: truthy_iff) simp
  next
    case False
    then show ?thesis by (simp only: truthy_iff dead(1)) simp
  qed
  have D: "(truthy (?L - ?C) \<or> truthy (?C - ?L)) \<longleftrightarrow> ?L \<noteq> ?C"
    unfolding truthy_iff by blast
  have "query_windows iter mk infos off windows view =
       Some \<lparr>registry = foldl (\<lambda>ws w. remove1 w ws) (windows @ map (new_window mk) fresh) dead,
             view_after = view\<lparr>offset := off\<rparr>,
             created = map (new_window mk) fresh,
             removed = map Some dead,
             draws = (if ?L = ?C then 0 else 1)\<rparr>"
    unfolding query_windows_def Let_def keys_dict_comp added_window_ids_eq removed_window_ids_eq
      A B D
    by (simp add: batch_iadd_def batch_isub_map_Some)
  with fresh dead show ?thesis by blast
qed

lemma distinct_mset_subseteq:
  "distinct ds \<Longrightarrow> set ds \<subseteq> set ws \<Longrightarrow> mset ds \<subseteq># mset ws"
proof (rule mset_subset_eqI)
  fix a
  assume d: "distinct ds" and s: "set ds \<subseteq> set ws"
  show "count (mset ds) a \<le> count (mset ws) a"
  proof (cases "a \<in> set ds")
    case True
    then have "count (mset ds) a = 1" using d by (simp add: distinct_count_atmost_1)
    moreover have "a \<in> set ws" using True s by auto
    then have "1 \<le> count (mset ws) a" by (simp add: Suc_le_eq)
    ultimately show ?thesis by simp
  next
    case False
    then have z: "count (mset ds) a = 0" by (simp add: count_eq_zero_iff)
    show ?thesis unfolding z by simp
  qed
qed

lemma registry_after_distinct:
  assumes dw: "distinct (map parent_id windows)"
    and dn: "distinct (map parent_id new)"
    and nn: "parent_id ` set new = L - parent_id ` set windows"
    and sd: "set dead \<subseteq> set windows"
    and nd: "parent_id ` set dead = parent_id ` set windows - L"
  shows "set dead = {w \<in> set windows. parent_id w \<notin> L}"
    and "distinct (map parent_id (foldl (\<lambda>ws w. remove1 w ws) (windows @ new) dead))"
    and "parent_id ` set (foldl (\<lambda>ws w. remove1 w ws) (windows @ new) dead) = L"
proof -
  let ?xs = "windows @ new"
  let ?r = "foldl (\<lambda>ws w. remove1 w ws) ?xs dead"
  have dxs: "distinct (map parent_id ?xs)" using dw dn nn by auto
  then have inj: "inj_on parent_id (set ?xs)" and d: "distinct ?xs"
    by (simp_all only: distinct_map)
  have r: "set ?r = set ?xs - set dead" "distinct ?r"
    using set_foldl_remove1 [OF d, of dead] by simp_all
  have injw: "inj_on parent_id (set windows)" using dw by (simp add: distinct_map)
  show "set dead = {w \<in> set windows. parent_id w \<notin> L}"
  proof (rule set_eqI)
    fix w
    show "w \<in> set dead \<longleftrightarrow> w \<in> {w \<in> set windows. parent_id w \<notin> L}"
    proof
      assume "w \<in> set dead"
      then show "w \<in> {w \<in> set windows. parent_id w \<notin> L}" using sd nd by auto
    next
      assume "w \<in> {w \<in> set windows. parent_id w \<notin> L}"
      then have w: "w \<in> set windows" "parent_id w \<notin> L" by simp_all
      then have "parent_id w \<in> parent_id ` set dead" using nd by auto
      then obtain d where "d \<in> set dead" "parent_id d = parent_id w" by auto
      then show "w \<in> set dead" using w(1) sd injw by (auto dest: inj_onD)
    qed
  qed
  show "distinct (map parent_id ?r)"
    using r inj by (auto simp: distinct_map intro: inj_on_subset)
  have "parent_id ` set ?r = parent_id ` set ?xs - parent_id ` set dead"
    unfolding r(1) using sd by (intro inj_on_image_set_diff [OF inj]) auto
  also have "\<dots> = L" using nn nd by auto
  finally show "parent_id ` set ?r = L" .
qed

lemma set_iteration_sorted: "set_iteration (sorted_list_of_set :: int set \<Rightarrow> int list)"
  by (simp add: set_iteration_def)

lemma query_windows_unchanged:
  assumes "window_id ` set infos = parent_id ` set windows"
  shows "query_windows iter mk infos off windows view =
     Some \<lparr>registry = windows, view_after = view\<lparr>offset := off\<rparr>, created = [],
           removed = [], draws = 0\<rparr>"
  unfolding query_windows_def Let_def keys_dict_comp added_window_ids_eq removed_window_ids_eq
    truthy_iff assms
  by (simp add: batch_iadd_def batch_isub_def)

lemma query_windows_view_after:
  "query_windows iter mk infos off windows view = Some r \<Longrightarrow> view_after r = view\<lparr>offset := off\<rparr>"
  unfolding query_windows_def Let_def
  by (auto split: option.splits)

section \<open>The session reconciler: what one call does\<close>

text \<open>
  Claim C1. With \<open>L\<close> the ids of the live parent windows and \<open>C\<close> the parent ids of the
  registry, one call of \<open>query_windows\<close> returns, creates exactly one window for each id of
  \<open>L - C\<close> and none else, and hands to the removal exactly one window of the registry for
  each id of \<open>C - L\<close> and none else; the registry afterwards is the old one without the
  removed windows plus the created ones. When no two windows of the registry share a
  parent id (the invariant of the registry), the removed windows are all the windows
  whose id is not live, and the parent ids of the registry afterwards are exactly \<open>L\<close>,
  again without repetition. For \<open>C = {1,2,3}\<close> and \<open>L = {2,3,4}\<close>: one window created
  (id 4), one removed (id 1), ids afterwards \<open>{2,3,4}\<close>.
\<close>

theorem query_windows_set_diff:
  assumes "set_iteration iter"
  shows "\<exists>r dead. query_windows iter mk parent_window_infos get_offset windows view = Some r
    \<and> distinct (map parent_id (created r))
    \<and> parent_id ` set (created r) = window_id ` set parent_window_infos - parent_id ` set windows
    \<and> removed r = map Some dead
    \<and> distinct (map parent_id dead) \<and> mset dead \<subseteq># mset windows
    \<and> parent_id ` set dead = parent_id ` set windows - window_id ` set parent_window_infos
    \<and> mset (registry r) = mset windows - mset dead + mset (created r)
    \<and> (distinct (map parent_id windows) \<longrightarrow>
          set dead = {w \<in> set windows. parent_id w \<notin> window_id ` set parent_window_infos}
          \<and> distinct (map parent_id (registry r))
          \<and> parent_id ` set (registry r) = window_id ` set parent_window_infos)"
proof -
  let ?L = "window_id ` set parent_window_infos" and ?C = "parent_id ` set windows"
  obtain fresh dead where run:
    "query_windows iter mk parent_window_infos get_offset windows view =
       Some \<lparr>registry = foldl (\<lambda>ws w. remove1 w ws) (windows @ map (new_window mk) fresh) dead,
             view_after = view\<lparr>offset := get_offset\<rparr>,
             created = map (new_window mk) fresh,
             removed = map Some dead,
             draws = (if ?L = ?C then 0 else 1)\<rparr>"
    and fresh: "map window_id fresh = iter (?L - ?C)"
    and dead: "map parent_id dead = iter (?C - ?L)" "set dead \<subseteq> set windows"
    using query_windows_run [OF assms, of mk parent_window_infos get_offset windows view] by blast
  let ?new = "map (new_window mk) fresh"
  have ids_new: "map parent_id ?new = iter (?L - ?C)"
    using fresh by (simp add: new_window_def comp_def)
  have itL: "set (iter (?L - ?C)) = ?L - ?C" "distinct (iter (?L - ?C))"
    using set_iterationD [OF assms, of "?L - ?C"] by simp_all
  have itC: "set (iter (?C - ?L)) = ?C - ?L" "distinct (iter (?C - ?L))"
    using set_iterationD [OF assms, of "?C - ?L"] by simp_all
  have dn: "distinct (map parent_id ?new)" using ids_new itL by simp
  have nn: "parent_id ` set ?new = ?L - ?C"
    using ids_new itL(1) by (metis set_map)
  have dd: "distinct (map parent_id dead)" using dead(1) itC by simp
  have nd: "parent_id ` set dead = ?C - ?L"
    using dead(1) itC(1) by (metis set_map)
  have sub: "mset dead \<subseteq># mset windows"
    using dd dead(2) by (intro distinct_mset_subseteq) (auto simp: distinct_map)
  have ms: "mset (foldl (\<lambda>ws w. remove1 w ws) (windows @ ?new) dead) =
      mset windows - mset dead + mset ?new"
    using sub by (simp add: mset_foldl_remove1)
  have inv: "distinct (map parent_id windows) \<longrightarrow>
          set dead = {w \<in> set windows. parent_id w \<notin> ?L}
          \<and> distinct (map parent_id (foldl (\<lambda>ws w. remove1 w ws) (windows @ ?new) dead))
          \<and> parent_id ` set (foldl (\<lambda>ws w. remove1 w ws) (windows @ ?new) dead) = ?L"
    using registry_after_distinct [OF _ dn nn dead(2) nd] by blast
  show ?thesis
    using run dn nn dd sub nd ms inv by auto
qed

theorem query_windows_set_diff_witness:
  "set_iteration (sorted_list_of_set :: int set \<Rightarrow> int list) \<and>
   distinct (map parent_id [\<lparr>parent_id = 1, window_rest = ()\<rparr>, \<lparr>parent_id = 2, window_rest = ()\<rparr>,
           \<lparr>parent_id = 3, window_rest = ()\<rparr>]) \<and>
   (\<exists>r. query_windows sorted_list_of_set (\<lambda>i. ())
          [\<lparr>window_id = 2, info_rest = ''pts/2''\<rparr>, \<lparr>window_id = 3, info_rest = ''pts/3''\<rparr>,
           \<lparr>window_id = 4, info_rest = ''pts/4''\<rparr>] (5 :: int)
          [\<lparr>parent_id = 1, window_rest = ()\<rparr>, \<lparr>parent_id = 2, window_rest = ()\<rparr>,
           \<lparr>parent_id = 3, window_rest = ()\<rparr>]
          \<lparr>offset = 0, media = (), screen_width = 80, screen_height = 24\<rparr> = Some r
      \<and> created r = [\<lparr>parent_id = 4, window_rest = ()\<rparr>]
      \<and> removed r = [Some \<lparr>parent_id = 1, window_rest = ()\<rparr>]
      \<and> parent_id ` set (registry r) = {2, 3, 4})"
  using query_windows_set_diff [OF set_iteration_sorted, of "\<lambda>i. ()"
          "[\<lparr>window_id = 2, info_rest = ''pts/2''\<rparr>, \<lparr>window_id = 3, info_rest = ''pts/3''\<rparr>,
           \<lparr>window_id = 4, info_rest = ''pts/4''\<rparr>]" "5 :: int"
          "[\<lparr>parent_id = 1, window_rest = ()\<rparr>, \<lparr>parent_id = 2, window_rest = ()\<rparr>,
           \<lparr>parent_id = 3, window_rest = ()\<rparr>]"
          "\<lparr>offset = 0, media = (), screen_width = 80, screen_height = 24\<rparr>"]
    set_iteration_sorted
  by (simp add: query_windows_def dict_comp_def keys_def dict_get_def truthy_def
      added_window_ids_def removed_window_ids_def create_def new_window_def batch_iadd_def
      batch_isub_def batch_remove_def Let_def)

text \<open>
  Claim C2. When the ids of the live parent windows are the parent ids of the registry,
  a call of \<open>query_windows\<close> creates no window, hands nothing to the removal, leaves the
  registry as it is and never calls \<^verbatim>\<open>windows.draw()\<close>, whatever the iteration order.
  Hence, from a registry without duplicate parent ids, a second call right after a first
  one, with the same live windows, creates nothing, removes nothing and does not draw.
\<close>

theorem query_windows_idempotent:
  "(window_id ` set infos = parent_id ` set windows \<longrightarrow>
      query_windows iter mk infos off windows view =
        Some \<lparr>registry = windows, view_after = view\<lparr>offset := off\<rparr>, created = [],
              removed = [], draws = 0\<rparr>)
   \<and> (set_iteration iter \<and> distinct (map parent_id windows) \<longrightarrow>
      (\<exists>r. query_windows iter mk infos off windows view = Some r
         \<and> query_windows iter mk infos off' (registry r) (view_after r) =
             Some \<lparr>registry = registry r, view_after = (view_after r)\<lparr>offset := off'\<rparr>,
                   created = [], removed = [], draws = 0\<rparr>))"
proof (intro conjI impI)
  assume "window_id ` set infos = parent_id ` set windows"
  then show "query_windows iter mk infos off windows view =
        Some \<lparr>registry = windows, view_after = view\<lparr>offset := off\<rparr>, created = [],
              removed = [], draws = 0\<rparr>"
    by (rule query_windows_unchanged)
next
  assume a: "set_iteration iter \<and> distinct (map parent_id windows)"
  then have it: "set_iteration iter" and dw: "distinct (map parent_id windows)" by simp_all
  obtain fresh dead where run:
    "query_windows iter mk infos off windows view =
       Some \<lparr>registry = foldl (\<lambda>ws w. remove1 w ws) (windows @ map (new_window mk) fresh) dead,
             view_after = view\<lparr>offset := off\<rparr>,
             created = map (new_window mk) fresh,
             removed = map Some dead,
             draws = (if window_id ` set infos = parent_id ` set windows then 0 else 1)\<rparr>"
    and fresh: "map window_id fresh = iter (window_id ` set infos - parent_id ` set windows)"
    and dead: "map parent_id dead = iter (parent_id ` set windows - window_id ` set infos)"
      "set dead \<subseteq> set windows"
    using query_windows_run [OF it, of mk infos off windows view] by blast
  let ?L = "window_id ` set infos" and ?C = "parent_id ` set windows"
  let ?new = "map (new_window mk) fresh"
  let ?reg = "foldl (\<lambda>ws w. remove1 w ws) (windows @ ?new) dead"
  have ids_new: "map parent_id ?new = iter (?L - ?C)"
    using fresh by (simp add: new_window_def comp_def)
  have itL: "set (iter (?L - ?C)) = ?L - ?C" "distinct (iter (?L - ?C))"
    using set_iterationD [OF it, of "?L - ?C"] by simp_all
  have itC: "set (iter (?C - ?L)) = ?C - ?L"
    using set_iterationD [OF it, of "?C - ?L"] by simp
  have dn: "distinct (map parent_id ?new)" using ids_new itL by simp
  have nn: "parent_id ` set ?new = ?L - ?C" using ids_new itL(1) by (metis set_map)
  have nd: "parent_id ` set dead = ?C - ?L" using dead(1) itC by (metis set_map)
  have same: "window_id ` set infos = parent_id ` set ?reg"
    using registry_after_distinct(3) [OF dw dn nn dead(2) nd] by simp
  have "query_windows iter mk infos off' ?reg (view\<lparr>offset := off\<rparr>) =
      Some \<lparr>registry = ?reg, view_after = view\<lparr>offset := off, offset := off'\<rparr>,
            created = [], removed = [], draws = 0\<rparr>"
    using same by (rule query_windows_unchanged)
  with run show "\<exists>r. query_windows iter mk infos off windows view = Some r
         \<and> query_windows iter mk infos off' (registry r) (view_after r) =
             Some \<lparr>registry = registry r, view_after = (view_after r)\<lparr>offset := off'\<rparr>,
                   created = [], removed = [], draws = 0\<rparr>"
    by simp
qed

theorem query_windows_idempotent_witness:
  "set_iteration (sorted_list_of_set :: int set \<Rightarrow> int list) \<and>
   distinct (map parent_id [\<lparr>parent_id = 1, window_rest = ()\<rparr>, \<lparr>parent_id = 3, window_rest = ()\<rparr>]) \<and>
   window_id ` set [\<lparr>window_id = 2, info_rest = ()\<rparr>, \<lparr>window_id = 1, info_rest = ()\<rparr>] =
     parent_id ` set [\<lparr>parent_id = 1, window_rest = ()\<rparr>, \<lparr>parent_id = 2, window_rest = ()\<rparr>] \<and>
   query_windows sorted_list_of_set (\<lambda>i. ())
       [\<lparr>window_id = 2, info_rest = ()\<rparr>, \<lparr>window_id = 1, info_rest = ()\<rparr>] (5 :: int)
       [\<lparr>parent_id = 1, window_rest = ()\<rparr>, \<lparr>parent_id = 2, window_rest = ()\<rparr>]
       \<lparr>offset = 0, media = (), screen_width = 80, screen_height = 24\<rparr> =
     Some \<lparr>registry = [\<lparr>parent_id = 1, window_rest = ()\<rparr>, \<lparr>parent_id = 2, window_rest = ()\<rparr>],
           view_after = \<lparr>offset = 5, media = (), screen_width = 80, screen_height = 24\<rparr>,
           created = [], removed = [], draws = 0\<rparr> \<and>
   (\<exists>r. query_windows sorted_list_of_set (\<lambda>i. ())
       [\<lparr>window_id = 2, info_rest = ()\<rparr>, \<lparr>window_id = 1, info_rest = ()\<rparr>] (5 :: int)
       [\<lparr>parent_id = 1, window_rest = ()\<rparr>, \<lparr>parent_id = 3, window_rest = ()\<rparr>]
       \<lparr>offset = 0, media = (), screen_width = 80, screen_height = 24\<rparr> = Some r \<and>
       draws r = 1 \<and>
       query_windows sorted_list_of_set (\<lambda>i. ())
         [\<lparr>window_id = 2, info_rest = ()\<rparr>, \<lparr>window_id = 1, info_rest = ()\<rparr>] 6
         (registry r) (view_after r) =
       Some \<lparr>registry = registry r, view_after = (view_after r)\<lparr>offset := 6\<rparr>,
             created = [], removed = [], draws = 0\<rparr>)"
proof -
  have it: "set_iteration (sorted_list_of_set :: int set \<Rightarrow> int list)"
    by (rule set_iteration_sorted)
  have d: "distinct (map parent_id [\<lparr>parent_id = 1, window_rest = ()\<rparr>, \<lparr>parent_id = 3, window_rest = ()\<rparr>])"
    by simp
  have e: "window_id ` set [\<lparr>window_id = 2, info_rest = ()\<rparr>, \<lparr>window_id = 1, info_rest = ()\<rparr>] =
     parent_id ` set [\<lparr>parent_id = 1, window_rest = ()\<rparr>, \<lparr>parent_id = 2, window_rest = ()\<rparr>]"
    by auto
  note thm1 = query_windows_idempotent [of
       "[\<lparr>window_id = 2, info_rest = ()\<rparr>, \<lparr>window_id = 1, info_rest = ()\<rparr>]"
       "[\<lparr>parent_id = 1, window_rest = ()\<rparr>, \<lparr>parent_id = 2, window_rest = ()\<rparr>]"
       sorted_list_of_set "\<lambda>i. ()" "5 :: int"
       "\<lparr>offset = 0, media = (), screen_width = 80, screen_height = 24\<rparr>" 6]
  note thm2 = query_windows_idempotent [of
       "[\<lparr>window_id = 2, info_rest = ()\<rparr>, \<lparr>window_id = 1, info_rest = ()\<rparr>]"
       "[\<lparr>parent_id = 1, window_rest = ()\<rparr>, \<lparr>parent_id = 3, window_rest = ()\<rparr>]"
       sorted_list_of_set "\<lambda>i. ()" "5 :: int"
       "\<lparr>offset = 0, media = (), screen_width = 80, screen_height = 24\<rparr>" 6]
  have first: "query_windows sorted_list_of_set (\<lambda>i. ())
       [\<lparr>window_id = 2, info_rest = ()\<rparr>, \<lparr>window_id = 1, info_rest = ()\<rparr>] (5 :: int)
       [\<lparr>parent_id = 1, window_rest = ()\<rparr>, \<lparr>parent_id = 2, window_rest = ()\<rparr>]
       \<lparr>offset = 0, media = (), screen_width = 80, screen_height = 24\<rparr> =
     Some \<lparr>registry = [\<lparr>parent_id = 1, window_rest = ()\<rparr>, \<lparr>parent_id = 2, window_rest = ()\<rparr>],
           view_after = \<lparr>offset = 5, media = (), screen_width = 80, screen_height = 24\<rparr>,
           created = [], removed = [], draws = 0\<rparr>"
    using thm1 e by simp
  have dr: "query_windows sorted_list_of_set (\<lambda>i. ())
       [\<lparr>window_id = 2, info_rest = ()\<rparr>, \<lparr>window_id = 1, info_rest = ()\<rparr>] (5 :: int)
       [\<lparr>parent_id = 1, window_rest = ()\<rparr>, \<lparr>parent_id = 3, window_rest = ()\<rparr>]
       \<lparr>offset = 0, media = (), screen_width = 80, screen_height = 24\<rparr> = Some r \<Longrightarrow> draws r = 1" for r
    by (auto simp add: query_windows_def dict_comp_def keys_def dict_get_def truthy_def
      added_window_ids_def removed_window_ids_def create_def new_window_def batch_iadd_def
      batch_isub_def batch_remove_def Let_def)
  have second: "\<exists>r. query_windows sorted_list_of_set (\<lambda>i. ())
       [\<lparr>window_id = 2, info_rest = ()\<rparr>, \<lparr>window_id = 1, info_rest = ()\<rparr>] (5 :: int)
       [\<lparr>parent_id = 1, window_rest = ()\<rparr>, \<lparr>parent_id = 3, window_rest = ()\<rparr>]
       \<lparr>offset = 0, media = (), screen_width = 80, screen_height = 24\<rparr> = Some r \<and>
       draws r = 1 \<and>
       query_windows sorted_list_of_set (\<lambda>i. ())
         [\<lparr>window_id = 2, info_rest = ()\<rparr>, \<lparr>window_id = 1, info_rest = ()\<rparr>] 6
         (registry r) (view_after r) =
       Some \<lparr>registry = registry r, view_after = (view_after r)\<lparr>offset := 6\<rparr>,
             created = [], removed = [], draws = 0\<rparr>"
    using thm2 it d dr by blast
  show ?thesis using it e first second by simp
qed

text \<open>
  Claim C3. The ids to add and the ids to remove are disjoint for every pair of id sets:
  the first is the symmetric difference cut with the live ids (so \<open>P - C\<close>), the second
  the symmetric difference cut with the registry's ids (so \<open>C - P\<close>). In a call of
  \<open>query_windows\<close> the parent ids of the created windows are the first set, those of the
  removed windows the second, and no id is in both.
\<close>

theorem added_removed_disjoint:
  "added_window_ids P C \<inter> removed_window_ids P C = {}
   \<and> added_window_ids P C = P - C \<and> removed_window_ids P C = C - P
   \<and> (set_iteration iter \<longrightarrow>
        (\<exists>r dead. query_windows iter mk infos off windows view = Some r
           \<and> removed r = map Some dead
           \<and> parent_id ` set (created r) =
               added_window_ids (window_id ` set infos) (parent_id ` set windows)
           \<and> parent_id ` set dead =
               removed_window_ids (window_id ` set infos) (parent_id ` set windows)
           \<and> parent_id ` set (created r) \<inter> parent_id ` set dead = {}))"
proof (intro conjI impI)
  show "added_window_ids P C \<inter> removed_window_ids P C = {}"
    by (auto simp: added_window_ids_def removed_window_ids_def)
  show "added_window_ids P C = P - C" by (rule added_window_ids_eq)
  show "removed_window_ids P C = C - P" by (rule removed_window_ids_eq)
next
  assume it: "set_iteration iter"
  let ?L = "window_id ` set infos" and ?C = "parent_id ` set windows"
  obtain fresh dead where run:
    "query_windows iter mk infos off windows view =
       Some \<lparr>registry = foldl (\<lambda>ws w. remove1 w ws) (windows @ map (new_window mk) fresh) dead,
             view_after = view\<lparr>offset := off\<rparr>,
             created = map (new_window mk) fresh,
             removed = map Some dead,
             draws = (if ?L = ?C then 0 else 1)\<rparr>"
    and fresh: "map window_id fresh = iter (?L - ?C)"
    and dead: "map parent_id dead = iter (?C - ?L)"
    using query_windows_run [OF it, of mk infos off windows view] by blast
  have ids_new: "map parent_id (map (new_window mk) fresh) = iter (?L - ?C)"
    using fresh by (simp add: new_window_def comp_def)
  have nn: "parent_id ` set (map (new_window mk) fresh) = ?L - ?C"
    using ids_new set_iterationD [OF it, of "?L - ?C"] by (metis finite_Diff finite_imageI List.finite_set set_map)
  have nd: "parent_id ` set dead = ?C - ?L"
    using dead set_iterationD [OF it, of "?C - ?L"] by (metis finite_Diff finite_imageI List.finite_set set_map)
  have "parent_id ` set (map (new_window mk) fresh) \<inter> parent_id ` set dead = {}"
    unfolding nn nd by blast
  with run nn nd show "\<exists>r dead. query_windows iter mk infos off windows view = Some r
           \<and> removed r = map Some dead
           \<and> parent_id ` set (created r) = added_window_ids ?L ?C
           \<and> parent_id ` set dead = removed_window_ids ?L ?C
           \<and> parent_id ` set (created r) \<inter> parent_id ` set dead = {}"
    unfolding added_window_ids_eq removed_window_ids_eq by auto
qed

theorem added_removed_disjoint_witness:
  "set_iteration (sorted_list_of_set :: int set \<Rightarrow> int list)
   \<and> added_window_ids {2, 3, 4} {1, 2, 3} = {4}
   \<and> removed_window_ids {2, 3, 4} {1, 2, 3} = {1}
   \<and> added_window_ids {2, 3, 4} {1, 2, 3} \<inter> removed_window_ids {2, 3, 4} {1, 2, 3} = {}
   \<and> (\<exists>r dead. query_windows sorted_list_of_set (\<lambda>i. ())
          [\<lparr>window_id = 2, info_rest = ()\<rparr>, \<lparr>window_id = 3, info_rest = ()\<rparr>,
           \<lparr>window_id = 4, info_rest = ()\<rparr>] (5 :: int)
          [\<lparr>parent_id = 1, window_rest = ()\<rparr>, \<lparr>parent_id = 2, window_rest = ()\<rparr>,
           \<lparr>parent_id = 3, window_rest = ()\<rparr>]
          \<lparr>offset = 0, media = (), screen_width = 80, screen_height = 24\<rparr> = Some r
        \<and> removed r = map Some dead
        \<and> parent_id ` set (created r) = {4} \<and> parent_id ` set dead = {1})"
proof -
  have it: "set_iteration (sorted_list_of_set :: int set \<Rightarrow> int list)"
    by (rule set_iteration_sorted)
  note t = added_removed_disjoint [of "{2, 3, 4}" "{1, 2, 3}" sorted_list_of_set "\<lambda>i. ()"
          "[\<lparr>window_id = 2, info_rest = ()\<rparr>, \<lparr>window_id = 3, info_rest = ()\<rparr>,
           \<lparr>window_id = 4, info_rest = ()\<rparr>]" "5 :: int"
          "[\<lparr>parent_id = 1, window_rest = ()\<rparr>, \<lparr>parent_id = 2, window_rest = ()\<rparr>,
           \<lparr>parent_id = 3, window_rest = ()\<rparr>]"
          "\<lparr>offset = 0, media = (), screen_width = 80, screen_height = 24\<rparr>"]
  have "added_window_ids {2, 3, 4} {1, 2, 3} = {2, 3, 4} - {1, 2, 3 :: int}"
    using t by (elim conjE)
  also have "\<dots> = {4}" by auto
  finally have a: "added_window_ids {2, 3, 4} {1, 2, 3} = {4}" .
  have "removed_window_ids {2, 3, 4} {1, 2, 3} = {1, 2, 3} - {2, 3, 4 :: int}"
    using t by (elim conjE)
  also have "\<dots> = {1}" by auto
  finally have r: "removed_window_ids {2, 3, 4} {1, 2, 3} = {1}" .
  have w: "window_id ` set [\<lparr>window_id = 2, info_rest = ()\<rparr>, \<lparr>window_id = 3, info_rest = ()\<rparr>,
           \<lparr>window_id = 4, info_rest = ()\<rparr>] = {2, 3, 4}" by auto
  have p: "parent_id ` set [\<lparr>parent_id = 1, window_rest = ()\<rparr>, \<lparr>parent_id = 2, window_rest = ()\<rparr>,
           \<lparr>parent_id = 3, window_rest = ()\<rparr>] = {1, 2, 3}" by auto
  from t it have "\<exists>r dead. query_windows sorted_list_of_set (\<lambda>i. ())
          [\<lparr>window_id = 2, info_rest = ()\<rparr>, \<lparr>window_id = 3, info_rest = ()\<rparr>,
           \<lparr>window_id = 4, info_rest = ()\<rparr>] (5 :: int)
          [\<lparr>parent_id = 1, window_rest = ()\<rparr>, \<lparr>parent_id = 2, window_rest = ()\<rparr>,
           \<lparr>parent_id = 3, window_rest = ()\<rparr>]
          \<lparr>offset = 0, media = (), screen_width = 80, screen_height = 24\<rparr> = Some r
        \<and> removed r = map Some dead
        \<and> parent_id ` set (created r) = added_window_ids {2, 3, 4} {1, 2, 3}
        \<and> parent_id ` set dead = removed_window_ids {2, 3, 4} {1, 2, 3}
        \<and> parent_id ` set (created r) \<inter> parent_id ` set dead = {}"
    unfolding w p by (elim conjE impE) assumption+
  then obtain r dead where q: "query_windows sorted_list_of_set (\<lambda>i. ())
          [\<lparr>window_id = 2, info_rest = ()\<rparr>, \<lparr>window_id = 3, info_rest = ()\<rparr>,
           \<lparr>window_id = 4, info_rest = ()\<rparr>] (5 :: int)
          [\<lparr>parent_id = 1, window_rest = ()\<rparr>, \<lparr>parent_id = 2, window_rest = ()\<rparr>,
           \<lparr>parent_id = 3, window_rest = ()\<rparr>]
          \<lparr>offset = 0, media = (), screen_width = 80, screen_height = 24\<rparr> = Some r"
      "removed r = map Some dead"
      "parent_id ` set (created r) = added_window_ids {2, 3, 4} {1, 2, 3}"
      "parent_id ` set dead = removed_window_ids {2, 3, 4} {1, 2, 3}"
    by (elim exE conjE)
  have d: "added_window_ids {2, 3, 4} {1, 2, 3} \<inter> removed_window_ids {2, 3, 4} {1, 2, 3} = {}"
    using t by (elim conjE)
  have c1: "parent_id ` set (created r) = {4}" using q(3) a by simp
  have c2: "parent_id ` set dead = {1}" using q(4) r by simp
  have "\<exists>r dead. query_windows sorted_list_of_set (\<lambda>i. ())
          [\<lparr>window_id = 2, info_rest = ()\<rparr>, \<lparr>window_id = 3, info_rest = ()\<rparr>,
           \<lparr>window_id = 4, info_rest = ()\<rparr>] (5 :: int)
          [\<lparr>parent_id = 1, window_rest = ()\<rparr>, \<lparr>parent_id = 2, window_rest = ()\<rparr>,
           \<lparr>parent_id = 3, window_rest = ()\<rparr>]
          \<lparr>offset = 0, media = (), screen_width = 80, screen_height = 24\<rparr> = Some r
        \<and> removed r = map Some dead
        \<and> parent_id ` set (created r) = {4} \<and> parent_id ` set dead = {1}"
    using q(1,2) c1 c2 by (intro exI conjI)
  then show ?thesis using it a r d by (intro conjI)
qed

text \<open>
  Claim C10. Every call of \<open>query_windows\<close> that returns leaves the view with its offset
  set to what the multiplexer gave in this call and with media, screen_width and
  screen_height as they were; a call returns for every iteration order. This holds too
  when nothing is added or removed: the call then creates nothing, removes nothing, does
  not draw, and has still assigned the offset.
\<close>

theorem query_windows_view:
  "(\<forall>r. query_windows iter mk infos get_offset windows view = Some r \<longrightarrow>
       view_after r = view\<lparr>offset := get_offset\<rparr>
       \<and> offset (view_after r) = get_offset
       \<and> media (view_after r) = media view
       \<and> screen_width (view_after r) = screen_width view
       \<and> screen_height (view_after r) = screen_height view)
   \<and> (set_iteration iter \<longrightarrow> (\<exists>r. query_windows iter mk infos get_offset windows view = Some r))
   \<and> (window_id ` set infos = parent_id ` set windows \<longrightarrow>
       (\<exists>r. query_windows iter mk infos get_offset windows view = Some r
          \<and> created r = [] \<and> removed r = [] \<and> draws r = 0
          \<and> view_after r = view\<lparr>offset := get_offset\<rparr>))"
proof (intro conjI allI impI)
  fix r
  assume "query_windows iter mk infos get_offset windows view = Some r"
  then have v: "view_after r = view\<lparr>offset := get_offset\<rparr>" by (rule query_windows_view_after)
  show "view_after r = view\<lparr>offset := get_offset\<rparr>" by (rule v)
  show "offset (view_after r) = get_offset" by (simp add: v)
  show "media (view_after r) = media view" by (simp add: v)
  show "screen_width (view_after r) = screen_width view" by (simp add: v)
  show "screen_height (view_after r) = screen_height view" by (simp add: v)
next
  assume "set_iteration iter"
  then show "\<exists>r. query_windows iter mk infos get_offset windows view = Some r"
    using query_windows_run [of iter mk infos get_offset windows view] by blast
next
  assume "window_id ` set infos = parent_id ` set windows"
  then show "\<exists>r. query_windows iter mk infos get_offset windows view = Some r
          \<and> created r = [] \<and> removed r = [] \<and> draws r = 0
          \<and> view_after r = view\<lparr>offset := get_offset\<rparr>"
    by (simp add: query_windows_unchanged)
qed

theorem query_windows_view_witness:
  "set_iteration (sorted_list_of_set :: int set \<Rightarrow> int list)
   \<and> window_id ` set [\<lparr>window_id = 7, info_rest = ()\<rparr>] = parent_id ` set [\<lparr>parent_id = 7, window_rest = ()\<rparr>]
   \<and> (\<exists>r. query_windows sorted_list_of_set (\<lambda>i. ()) [\<lparr>window_id = 7, info_rest = ()\<rparr>]
            (3 :: int, 4 :: int) [\<lparr>parent_id = 7, window_rest = ()\<rparr>]
            \<lparr>offset = (0, 0), media = [''img1''], screen_width = 80, screen_height = 24\<rparr> = Some r
         \<and> created r = [] \<and> removed r = [] \<and> draws r = 0
         \<and> view_after r = \<lparr>offset = (3, 4), media = [''img1''], screen_width = 80, screen_height = 24\<rparr>)"
proof -
  have e: "window_id ` set [\<lparr>window_id = 7, info_rest = ()\<rparr>] = parent_id ` set [\<lparr>parent_id = 7, window_rest = ()\<rparr>]"
    by simp
  show ?thesis
    using e set_iteration_sorted
      query_windows_view [of sorted_list_of_set "\<lambda>i. ()" "[\<lparr>window_id = 7, info_rest = ()\<rparr>]"
            "(3 :: int, 4 :: int)" "[\<lparr>parent_id = 7, window_rest = ()\<rparr>]"
            "\<lparr>offset = (0, 0), media = [''img1''], screen_width = 80, screen_height = 24\<rparr>"]
    by simp
qed

section \<open>The command dispatcher: facts\<close>

lemma unescape_append_esc:
  "unescape (u @ CHR 0x5C # CHR ''$'' # v) = unescape u @ CHR ''$'' # unescape v"
  by (induction u rule: unescape.induct) auto

lemma unescape_no_dollar: "CHR ''$'' \<notin> set s \<Longrightarrow> unescape s = s"
  by (induction s rule: unescape.induct) auto


lemma unescape_plain_dollar:
  "CHR ''$'' \<notin> set p \<Longrightarrow> p = [] \<or> last p \<noteq> CHR 0x5C \<Longrightarrow>
   unescape (p @ CHR ''$'' # s) = p @ CHR ''$'' # unescape s"
proof (induction p rule: unescape.induct)
  case (1 c d cs)
  then show ?case by (auto split: if_splits)
next
  case "2_1"
  show ?case by (cases s) auto
next
  case "2_2"
  then show ?case by (cases s) auto
qed

lemma err_out_line_body: "err_out (snd (line_body tools acts line d)) = err_out d"
  by (auto simp: line_body_def Let_def split: sum.splits option.splits prod.splits)

lemma codec_in_line_body:
  "codec_in (snd (line_body tools acts line d)) = codec_in d @ [butlast (unescape line)]"
  by (auto simp: line_body_def Let_def split: sum.splits option.splits prod.splits)

lemma codec_in_process_line:
  "codec_in (snd (process_line tools acts line d)) = codec_in d @ [butlast (unescape line)]"
  using codec_in_line_body [of tools acts line d]
  by (auto simp: process_line_def except_clause_def split: prod.splits option.splits)

lemma line_body_cong:
  "unescape l1 = unescape l2 \<Longrightarrow> line_body tools acts l1 d = line_body tools acts l2 d"
  by (simp add: line_body_def)

lemmas example_defs = example_tools_def example_parser_def example_actions_def example_dispatcher_def
  value_error_def runtime_error_def error_processor_factory_def process_error_def

lemmas dispatch_defs = process_line_def line_body_def except_clause_def caught_def isinstance_def
  key_error_def Let_def

text \<open>
  Claim C4. When the body of the inner \<^verbatim>\<open>try\<close> raises, for a non-empty line, an exception
  that is an instance of OSError, KeyError, ValueError or TypeError, and the tools are
  wired as \<^verbatim>\<open>main\<close> wires them, then the dispatcher catches it, prints exactly one more
  string to standard error, namely the codec's \<open>unparse\<close> of the mapping with
  \<^verbatim>\<open>type\<close> = \<^verbatim>\<open>error\<close>, \<^verbatim>\<open>name\<close> = the name of the exception's class and \<^verbatim>\<open>message\<close> = its string
  form, and the loop goes on with the next line: the run on the line and the rest is the
  run on the rest from that state.
\<close>

theorem caught_error_is_reported:
  assumes "line \<noteq> []"
    and "line_body tools acts line d = (Some e, d')"
    and "caught e"
    and "error_handler tools = error_processor_factory (parser tools)"
  shows "process_line tools acts line d =
           (None, d'\<lparr>err_out := err_out d @
              [unparse (parser tools)
                 [(''type'', ''error''), (''name'', exc_name e), (''message'', exc_str e)]]\<rparr>)
         \<and> read_loop tools acts (Inr line # rest) d =
             read_loop tools acts rest
               (d'\<lparr>err_out := err_out d @
                  [unparse (parser tools)
                     [(''type'', ''error''), (''name'', exc_name e), (''message'', exc_str e)]]\<rparr>)"
proof -
  have eo: "err_out d' = err_out d"
    using err_out_line_body [of tools acts line d] assms(2) by simp
  have pl: "process_line tools acts line d =
           (None, d'\<lparr>err_out := err_out d @
              [unparse (parser tools)
                 [(''type'', ''error''), (''name'', exc_name e), (''message'', exc_str e)]]\<rparr>)"
    using assms(2,3,4) eo
    by (simp add: process_line_def except_clause_def error_processor_factory_def process_error_def)
  show ?thesis using pl assms(1) by simp
qed

theorem caught_error_is_reported_witness:
  "''bogus'' @ [CHR 0x0A] \<noteq> []
   \<and> line_body example_tools example_actions (''bogus'' @ [CHR 0x0A]) example_dispatcher =
       (Some (value_error ''bogus''), example_dispatcher\<lparr>codec_in := [''bogus'']\<rparr>)
   \<and> caught (value_error ''bogus'')
   \<and> error_handler example_tools = error_processor_factory (parser example_tools)
   \<and> process_line example_tools example_actions (''bogus'' @ [CHR 0x0A]) example_dispatcher =
       (None, example_dispatcher\<lparr>codec_in := [''bogus''],
                err_out := [''type=error;name=ValueError;message=bogus;'']\<rparr>)
   \<and> read_loop example_tools example_actions
         [Inr (''bogus'' @ [CHR 0x0A]), Inr (''add'' @ [CHR 0x0A])] example_dispatcher =
       (None, \<lparr>app = [''add''], err_out = [''type=error;name=ValueError;message=bogus;''],
               codec_in = [''bogus'', ''add'']\<rparr>)"
proof -
  have a: "''bogus'' @ [CHR 0x0A] \<noteq> []" by simp
  have b: "line_body example_tools example_actions (''bogus'' @ [CHR 0x0A]) example_dispatcher =
       (Some (value_error ''bogus''), example_dispatcher\<lparr>codec_in := [''bogus'']\<rparr>)"
    by (simp add: dispatch_defs example_defs)
  have c: "caught (value_error ''bogus'')" by (simp add: dispatch_defs example_defs)
  have d: "error_handler example_tools = error_processor_factory (parser example_tools)"
    by (simp add: example_tools_def)
  note t = caught_error_is_reported [OF a b c d, of "[Inr (''add'' @ [CHR 0x0A])]"]
  show ?thesis using a b c d t by (simp add: dispatch_defs example_defs)
qed

text \<open>
  Claim C5, as stated, fails: the text before the dollar may end in a backslash without
  holding a dollar. With a single backslash before it, the line carrying backslash-dollar
  reaches the codec as backslash-dollar, the line carrying the bare dollar reaches it as
  a dollar alone (there the backslash and the dollar are themselves read as the escape).
\<close>

theorem escaped_dollar_counterexample:
  "CHR ''$'' \<notin> set [CHR 0x5C] \<and> CHR ''$'' \<notin> set [CHR 0x0A]
   \<and> unescape ([CHR 0x5C] @ [CHR 0x5C, CHR ''$''] @ [CHR 0x0A]) = [CHR 0x5C, CHR ''$'', CHR 0x0A]
   \<and> unescape ([CHR 0x5C] @ [CHR ''$''] @ [CHR 0x0A]) = [CHR ''$'', CHR 0x0A]
   \<and> codec_in (snd (process_line example_tools example_actions
         ([CHR 0x5C] @ [CHR 0x5C, CHR ''$''] @ [CHR 0x0A]) example_dispatcher)) = [[CHR 0x5C, CHR ''$'']]
   \<and> codec_in (snd (process_line example_tools example_actions
         ([CHR 0x5C] @ [CHR ''$''] @ [CHR 0x0A]) example_dispatcher)) = [[CHR ''$'']]
   \<and> process_line example_tools example_actions
         ([CHR 0x5C] @ [CHR 0x5C, CHR ''$''] @ [CHR 0x0A]) example_dispatcher \<noteq>
       process_line example_tools example_actions
         ([CHR 0x5C] @ [CHR ''$''] @ [CHR 0x0A]) example_dispatcher"
  by (simp add: dispatch_defs example_defs)

text \<open>
  Claim C5, amended. Every backslash-dollar of the input line becomes a dollar before
  the line is decoded: whatever stands before and behind an occurrence is rewritten on
  its own. For a text before the dollar that holds no dollar and does not end in a
  backslash, and a text behind it that holds no dollar, the line carrying backslash-dollar
  and the line carrying the bare dollar are rewritten to the same string, the second
  line itself, and the dispatcher does the same on both.
\<close>

theorem escaped_dollar_round_trip:
  "unescape (u @ CHR 0x5C # CHR ''$'' # v) = unescape u @ CHR ''$'' # unescape v
   \<and> (CHR ''$'' \<notin> set p \<and> CHR ''$'' \<notin> set s \<and> (p = [] \<or> last p \<noteq> CHR 0x5C) \<longrightarrow>
        unescape (p @ CHR 0x5C # CHR ''$'' # s) = p @ CHR ''$'' # s
      \<and> unescape (p @ CHR ''$'' # s) = p @ CHR ''$'' # s
      \<and> process_line tools acts (p @ CHR 0x5C # CHR ''$'' # s) d =
          process_line tools acts (p @ CHR ''$'' # s) d)"
proof (intro conjI impI)
  show "unescape (u @ CHR 0x5C # CHR ''$'' # v) = unescape u @ CHR ''$'' # unescape v"
    by (rule unescape_append_esc)
next
  assume a: "CHR ''$'' \<notin> set p \<and> CHR ''$'' \<notin> set s \<and> (p = [] \<or> last p \<noteq> CHR 0x5C)"
  then have e1: "unescape (p @ CHR 0x5C # CHR ''$'' # s) = p @ CHR ''$'' # s"
    by (simp add: unescape_append_esc unescape_no_dollar)
  from a have e2: "unescape (p @ CHR ''$'' # s) = p @ CHR ''$'' # s"
    by (simp add: unescape_plain_dollar unescape_no_dollar)
  show "unescape (p @ CHR 0x5C # CHR ''$'' # s) = p @ CHR ''$'' # s" by (rule e1)
  show "unescape (p @ CHR ''$'' # s) = p @ CHR ''$'' # s" by (rule e2)
  have "line_body tools acts (p @ CHR 0x5C # CHR ''$'' # s) d =
        line_body tools acts (p @ CHR ''$'' # s) d"
    by (rule line_body_cong) (simp add: e1 e2)
  then show "process_line tools acts (p @ CHR 0x5C # CHR ''$'' # s) d =
          process_line tools acts (p @ CHR ''$'' # s) d"
    by (simp add: process_line_def)
qed

theorem escaped_dollar_round_trip_witness:
  "CHR ''$'' \<notin> set ''ad'' \<and> CHR ''$'' \<notin> set (''d'' @ [CHR 0x0A]) \<and> last ''ad'' \<noteq> CHR 0x5C
   \<and> unescape (''ad'' @ CHR 0x5C # CHR ''$'' # ''d'' @ [CHR 0x0A]) = ''ad$d'' @ [CHR 0x0A]
   \<and> unescape (''ad'' @ CHR ''$'' # ''d'' @ [CHR 0x0A]) = ''ad$d'' @ [CHR 0x0A]
   \<and> process_line example_tools example_actions
         (''ad'' @ CHR 0x5C # CHR ''$'' # ''d'' @ [CHR 0x0A]) example_dispatcher =
       process_line example_tools example_actions
         (''ad'' @ CHR ''$'' # ''d'' @ [CHR 0x0A]) example_dispatcher
   \<and> codec_in (snd (process_line example_tools example_actions
         (''ad'' @ CHR 0x5C # CHR ''$'' # ''d'' @ [CHR 0x0A]) example_dispatcher)) = [''ad$d'']"
proof -
  note t = escaped_dollar_round_trip [of "''ad''" "''d'' @ [CHR 0x0A]" "''ad''" "''d'' @ [CHR 0x0A]"
      example_tools example_actions example_dispatcher]
  have h: "CHR ''$'' \<notin> set ''ad'' \<and> CHR ''$'' \<notin> set (''d'' @ [CHR 0x0A]) \<and>
       (''ad'' = [] \<or> last ''ad'' \<noteq> CHR 0x5C)" by simp
  have c: "codec_in (snd (process_line example_tools example_actions
         (''ad'' @ CHR 0x5C # CHR ''$'' # ''d'' @ [CHR 0x0A]) example_dispatcher)) = [''ad$d'']"
    by (simp add: codec_in_process_line example_dispatcher_def)
  show ?thesis using t h c by simp
qed

text \<open>
  Claim C6, as stated, fails: an empty line of the input does not end the read loop. A
  line reaches the loop with its newline (line 41 takes it off), so an empty line is the
  string of one newline, which is not empty for the test of line 36. It is decoded, here
  reported as an error, and the line behind it is read and applied.
\<close>

theorem blank_line_counterexample:
  "read_loop example_tools example_actions
     [Inr [CHR 0x0A], Inr (''add'' @ [CHR 0x0A])] example_dispatcher =
     (None, \<lparr>app = [''add''], err_out = [''type=error;name=ValueError;message=empty;''],
             codec_in = [[], ''add'']\<rparr>)
   \<and> read_loop example_tools example_actions [Inr [CHR 0x0A]] example_dispatcher =
     (None, \<lparr>app = [], err_out = [''type=error;name=ValueError;message=empty;''],
             codec_in = [[]]\<rparr>)
   \<and> read_loop example_tools example_actions
     [Inr [CHR 0x0A], Inr (''add'' @ [CHR 0x0A])] example_dispatcher \<noteq>
     read_loop example_tools example_actions [Inr [CHR 0x0A]] example_dispatcher"
  by (simp add: dispatch_defs example_defs)

text \<open>
  Claim C6, amended. However the read loop ends, \<open>process_commands\<close> with the factory that
  \<^verbatim>\<open>main\<close> passes (\<^verbatim>\<open>shutdown_factory(loop)\<close>) adds exactly one task to the scheduler, the
  shutdown coordinator, and nothing else: the inner \<^verbatim>\<open>ensure_future\<close> wraps the coroutine,
  the outer one is handed a future and returns it. The loop ends without an exception
  when the reader stops or yields the empty string, which is what \<^verbatim>\<open>readline\<close> gives at the
  end of the input (what comes behind it is not read), and with the exception when one
  is raised at the reader's await or leaves the handling of a line. An empty line of the
  input, the string of one newline, does not end the loop: it is handled as any line,
  the codec is handed the empty string, and the loop goes on unless an exception leaves
  the handling.
\<close>

theorem shutdown_scheduled_once:
  "process_commands tools acts shutdown_factory lines d l =
     (leave_coroutine (fst (read_loop tools acts lines d)), snd (read_loop tools acts lines d),
      l\<lparr>tasks := tasks l @ [(next_task l, Shutdown)], next_task := Suc (next_task l)\<rparr>)
   \<and> read_loop tools acts [] d = (None, d)
   \<and> read_loop tools acts (Inr [] # rest) d = (None, d)
   \<and> read_loop tools acts (Inl e # rest) d =
       (if isinstance e ''StopAsyncIteration'' then None else Some e, d)
   \<and> (line \<noteq> [] \<and> process_line tools acts line d = (Some e, d') \<longrightarrow>
        read_loop tools acts (Inr line # rest) d = (Some e, d'))
   \<and> read_loop tools acts (Inr [CHR 0x0A] # rest) d =
       (case process_line tools acts [CHR 0x0A] d of
          (Some e, d') \<Rightarrow> (Some e, d')
        | (None, d') \<Rightarrow> read_loop tools acts rest d')
   \<and> codec_in (snd (process_line tools acts [CHR 0x0A] d)) = codec_in d @ [[]]"
proof (intro conjI)
  show "process_commands tools acts shutdown_factory lines d l =
     (leave_coroutine (fst (read_loop tools acts lines d)), snd (read_loop tools acts lines d),
      l\<lparr>tasks := tasks l @ [(next_task l, Shutdown)], next_task := Suc (next_task l)\<rparr>)"
    by (simp add: process_commands_def shutdown_factory_def ensure_future_def split: prod.splits)
  show "codec_in (snd (process_line tools acts [CHR 0x0A] d)) = codec_in d @ [[]]"
    by (simp add: codec_in_process_line)
qed simp_all

theorem shutdown_scheduled_once_witness:
  "''crash'' @ [CHR 0x0A] \<noteq> []
   \<and> process_line example_tools example_actions (''crash'' @ [CHR 0x0A]) example_dispatcher =
       (Some (runtime_error ''crash''), example_dispatcher\<lparr>codec_in := [''crash'']\<rparr>)
   \<and> read_loop example_tools example_actions
         [Inr (''crash'' @ [CHR 0x0A]), Inr (''add'' @ [CHR 0x0A])] example_dispatcher =
       (Some (runtime_error ''crash''), example_dispatcher\<lparr>codec_in := [''crash'']\<rparr>)
   \<and> process_commands example_tools example_actions shutdown_factory
         [Inr (''crash'' @ [CHR 0x0A]), Inr (''add'' @ [CHR 0x0A])] example_dispatcher
         \<lparr>tasks = [(0, Process_xevents), (1, Process_commands)], next_task = 2\<rparr> =
       (Some (runtime_error ''crash''), example_dispatcher\<lparr>codec_in := [''crash'']\<rparr>,
        \<lparr>tasks = [(0, Process_xevents), (1, Process_commands), (2, Shutdown)], next_task = 3\<rparr>)
   \<and> process_commands example_tools example_actions shutdown_factory
         [Inr (''add'' @ [CHR 0x0A]), Inr [], Inr (''add'' @ [CHR 0x0A])] example_dispatcher
         \<lparr>tasks = [(0, Process_xevents), (1, Process_commands)], next_task = 2\<rparr> =
       (None, \<lparr>app = [''add''], err_out = [], codec_in = [''add'']\<rparr>,
        \<lparr>tasks = [(0, Process_xevents), (1, Process_commands), (2, Shutdown)], next_task = 3\<rparr>)
   \<and> process_commands example_tools example_actions shutdown_factory
         [Inr [CHR 0x0A], Inr (''add'' @ [CHR 0x0A])] example_dispatcher
         \<lparr>tasks = [(0, Process_xevents), (1, Process_commands)], next_task = 2\<rparr> =
       (None, \<lparr>app = [''add''], err_out = [''type=error;name=ValueError;message=empty;''],
               codec_in = [[], ''add'']\<rparr>,
        \<lparr>tasks = [(0, Process_xevents), (1, Process_commands), (2, Shutdown)], next_task = 3\<rparr>)
   \<and> process_commands example_tools example_actions shutdown_factory
         [Inl \<lparr>exc_name = ''StopIteration'',
               exc_bases = [''Exception'', ''BaseException'', ''object''], exc_str = []\<rparr>]
         example_dispatcher
         \<lparr>tasks = [(0, Process_xevents), (1, Process_commands)], next_task = 2\<rparr> =
       (Some (runtime_error ''coroutine raised StopIteration''), example_dispatcher,
        \<lparr>tasks = [(0, Process_xevents), (1, Process_commands), (2, Shutdown)], next_task = 3\<rparr>)"
proof -
  have a: "''crash'' @ [CHR 0x0A] \<noteq> []" by simp
  have b: "process_line example_tools example_actions (''crash'' @ [CHR 0x0A]) example_dispatcher =
       (Some (runtime_error ''crash''), example_dispatcher\<lparr>codec_in := [''crash'']\<rparr>)"
    by (simp add: dispatch_defs example_defs)
  note t1 = shutdown_scheduled_once [of example_tools example_actions
      "[Inr (''crash'' @ [CHR 0x0A]), Inr (''add'' @ [CHR 0x0A])]" example_dispatcher
      "\<lparr>tasks = [(0, Process_xevents), (1, Process_commands)], next_task = 2\<rparr>"
      "[Inr (''add'' @ [CHR 0x0A])]" "runtime_error ''crash''" "''crash'' @ [CHR 0x0A]"
      "example_dispatcher\<lparr>codec_in := [''crash'']\<rparr>"]
  note t2 = shutdown_scheduled_once [of example_tools example_actions
      "[Inr (''add'' @ [CHR 0x0A]), Inr [], Inr (''add'' @ [CHR 0x0A])]" example_dispatcher
      "\<lparr>tasks = [(0, Process_xevents), (1, Process_commands)], next_task = 2\<rparr>"]
  note t3 = shutdown_scheduled_once [of example_tools example_actions
      "[Inr [CHR 0x0A], Inr (''add'' @ [CHR 0x0A])]" example_dispatcher
      "\<lparr>tasks = [(0, Process_xevents), (1, Process_commands)], next_task = 2\<rparr>"]
  note t4 = shutdown_scheduled_once [of example_tools example_actions
      "[Inl \<lparr>exc_name = ''StopIteration'',
               exc_bases = [''Exception'', ''BaseException'', ''object''], exc_str = []\<rparr>]"
      example_dispatcher
      "\<lparr>tasks = [(0, Process_xevents), (1, Process_commands)], next_task = 2\<rparr>"]
  have c: "read_loop example_tools example_actions
         [Inr (''crash'' @ [CHR 0x0A]), Inr (''add'' @ [CHR 0x0A])] example_dispatcher =
       (Some (runtime_error ''crash''), example_dispatcher\<lparr>codec_in := [''crash'']\<rparr>)"
    using t1 a b by simp
  have d: "read_loop example_tools example_actions
      [Inr (''add'' @ [CHR 0x0A]), Inr [], Inr (''add'' @ [CHR 0x0A])] example_dispatcher =
      (None, \<lparr>app = [''add''], err_out = [], codec_in = [''add'']\<rparr>)"
    by (simp add: dispatch_defs example_defs)
  have e: "read_loop example_tools example_actions
      [Inr [CHR 0x0A], Inr (''add'' @ [CHR 0x0A])] example_dispatcher =
      (None, \<lparr>app = [''add''], err_out = [''type=error;name=ValueError;message=empty;''],
              codec_in = [[], ''add'']\<rparr>)"
    by (simp add: dispatch_defs example_defs)
  have f: "read_loop example_tools example_actions
      [Inl \<lparr>exc_name = ''StopIteration'',
               exc_bases = [''Exception'', ''BaseException'', ''object''], exc_str = []\<rparr>]
      example_dispatcher =
      (Some \<lparr>exc_name = ''StopIteration'',
               exc_bases = [''Exception'', ''BaseException'', ''object''], exc_str = []\<rparr>,
       example_dispatcher)"
    by (simp add: isinstance_def)
  have g: "leave_coroutine (Some (runtime_error ''crash'')) = Some (runtime_error ''crash'')"
    by (simp add: leave_coroutine_def isinstance_def runtime_error_def)
  have h: "leave_coroutine (Some \<lparr>exc_name = ''StopIteration'',
               exc_bases = [''Exception'', ''BaseException'', ''object''], exc_str = []\<rparr>) =
       Some (runtime_error ''coroutine raised StopIteration'')"
    by (simp add: leave_coroutine_def isinstance_def)
  have n: "leave_coroutine None = None" by (simp add: leave_coroutine_def)
  have p1: "process_commands example_tools example_actions shutdown_factory
         [Inr (''crash'' @ [CHR 0x0A]), Inr (''add'' @ [CHR 0x0A])] example_dispatcher
         \<lparr>tasks = [(0, Process_xevents), (1, Process_commands)], next_task = 2\<rparr> =
       (Some (runtime_error ''crash''), example_dispatcher\<lparr>codec_in := [''crash'']\<rparr>,
        \<lparr>tasks = [(0, Process_xevents), (1, Process_commands), (2, Shutdown)], next_task = 3\<rparr>)"
    using conjunct1 [OF t1] unfolding c by (simp add: g)
  have p2: "process_commands example_tools example_actions shutdown_factory
         [Inr (''add'' @ [CHR 0x0A]), Inr [], Inr (''add'' @ [CHR 0x0A])] example_dispatcher
         \<lparr>tasks = [(0, Process_xevents), (1, Process_commands)], next_task = 2\<rparr> =
       (None, \<lparr>app = [''add''], err_out = [], codec_in = [''add'']\<rparr>,
        \<lparr>tasks = [(0, Process_xevents), (1, Process_commands), (2, Shutdown)], next_task = 3\<rparr>)"
    using conjunct1 [OF t2] unfolding d by (simp add: n)
  have p3: "process_commands example_tools example_actions shutdown_factory
         [Inr [CHR 0x0A], Inr (''add'' @ [CHR 0x0A])] example_dispatcher
         \<lparr>tasks = [(0, Process_xevents), (1, Process_commands)], next_task = 2\<rparr> =
       (None, \<lparr>app = [''add''], err_out = [''type=error;name=ValueError;message=empty;''],
               codec_in = [[], ''add'']\<rparr>,
        \<lparr>tasks = [(0, Process_xevents), (1, Process_commands), (2, Shutdown)], next_task = 3\<rparr>)"
    using conjunct1 [OF t3] unfolding e by (simp add: n)
  have p4: "process_commands example_tools example_actions shutdown_factory
         [Inl \<lparr>exc_name = ''StopIteration'',
               exc_bases = [''Exception'', ''BaseException'', ''object''], exc_str = []\<rparr>]
         example_dispatcher
         \<lparr>tasks = [(0, Process_xevents), (1, Process_commands)], next_task = 2\<rparr> =
       (Some (runtime_error ''coroutine raised StopIteration''), example_dispatcher,
        \<lparr>tasks = [(0, Process_xevents), (1, Process_commands), (2, Shutdown)], next_task = 3\<rparr>)"
    using conjunct1 [OF t4] unfolding f by (simp add: h)
  show ?thesis using a b c p1 p2 p3 p4 by (intro conjI)
qed



section \<open>The display-event reactor: facts\<close>

lemma length_batch_process_event:
  "length (fst (batch_process_event pe ws dpy)) = length ws"
proof (induction ws arbitrary: dpy)
  case Nil
  show ?case by simp
next
  case (Cons w ws)
  obtain b w' dpy' where p: "pe w dpy = (b, w', dpy')" by (cases "pe w dpy") auto
  obtain bs ws' dpy'' where q: "batch_process_event pe ws dpy' = (bs, ws', dpy'')"
    by (cases "batch_process_event pe ws dpy'") auto
  have "length bs = length ws" using Cons.IH [of dpy'] q by simp
  then show ?case using p q by simp
qed

lemma discards_process_xevent:
  "discards (process_xevent pe de s) = discards s + (if any (claims pe s) then 0 else 1)"
  by (auto simp: process_xevent_def claims_def split: prod.splits)

lemma discards_process_xevents:
  "discards (process_xevents pe de n s) = discards s + unclaimed pe de n s"
  by (induction n arbitrary: s) (simp_all add: discards_process_xevent)

text \<open>
  Claim C8. For each event the reactor offers the event to every window of the registry.
  If one of them claims it, the connection is left as the windows left it and
  \<^verbatim>\<open>discard_event\<close> is not called; if none claims it (also when there is no window),
  \<^verbatim>\<open>discard_event\<close> is called exactly once. Over the first \<open>n\<close> events the number of calls
  is the number of events that no window claimed.
\<close>

theorem unclaimed_event_discarded_once:
  "process_xevent pe de s =
     (case batch_process_event pe (xwindows s) (xdisplay s) of
        (bs, ws, dpy) \<Rightarrow>
          \<lparr>xwindows = ws, xdisplay = (if any (claims pe s) then dpy else de dpy),
           discards = discards s + (if any (claims pe s) then 0 else 1)\<rparr>)
   \<and> length (claims pe s) = length (xwindows s)
   \<and> discards (process_xevents pe de n s) = discards s + unclaimed pe de n s"
proof (intro conjI)
  show "process_xevent pe de s =
     (case batch_process_event pe (xwindows s) (xdisplay s) of
        (bs, ws, dpy) \<Rightarrow>
          \<lparr>xwindows = ws, xdisplay = (if any (claims pe s) then dpy else de dpy),
           discards = discards s + (if any (claims pe s) then 0 else 1)\<rparr>)"
    by (auto simp: process_xevent_def claims_def split: prod.splits)
  show "length (claims pe s) = length (xwindows s)"
    by (simp add: claims_def length_batch_process_event)
  show "discards (process_xevents pe de n s) = discards s + unclaimed pe de n s"
    by (rule discards_process_xevents)
qed

theorem unclaimed_event_discarded_once_witness:
  "claims example_process_event \<lparr>xwindows = [1, 2], xdisplay = [2, 9, 1], discards = 0\<rparr> = [False, True]
   \<and> process_xevent example_process_event example_discard_event
        \<lparr>xwindows = [1, 2], xdisplay = [2, 9, 1], discards = 0\<rparr> =
      \<lparr>xwindows = [1, 2], xdisplay = [9, 1], discards = 0\<rparr>
   \<and> claims example_process_event \<lparr>xwindows = [1, 2], xdisplay = [9, 1], discards = 0\<rparr> = [False, False]
   \<and> process_xevent example_process_event example_discard_event
        \<lparr>xwindows = [1, 2], xdisplay = [9, 1], discards = 0\<rparr> =
      \<lparr>xwindows = [1, 2], xdisplay = [1], discards = 1\<rparr>
   \<and> process_xevents example_process_event example_discard_event 3
        \<lparr>xwindows = [1, 2], xdisplay = [2, 9, 1], discards = 0\<rparr> =
      \<lparr>xwindows = [1, 2], xdisplay = [], discards = 1\<rparr>
   \<and> unclaimed example_process_event example_discard_event 3
        \<lparr>xwindows = [1, 2], xdisplay = [2, 9, 1], discards = 0\<rparr> = 1"
proof -
  have c1: "claims example_process_event \<lparr>xwindows = [1, 2], xdisplay = [2, 9, 1], discards = 0\<rparr> = [False, True]"
    by code_simp
  have c2: "claims example_process_event \<lparr>xwindows = [1, 2], xdisplay = [9, 1], discards = 0\<rparr> = [False, False]"
    by code_simp
  have s1: "process_xevent example_process_event example_discard_event
        \<lparr>xwindows = [1, 2], xdisplay = [2, 9, 1], discards = 0\<rparr> =
      \<lparr>xwindows = [1, 2], xdisplay = [9, 1], discards = 0\<rparr>"
    by code_simp
  have s2: "process_xevent example_process_event example_discard_event
        \<lparr>xwindows = [1, 2], xdisplay = [9, 1], discards = 0\<rparr> =
      \<lparr>xwindows = [1, 2], xdisplay = [1], discards = 1\<rparr>"
    by code_simp
  have r: "process_xevents example_process_event example_discard_event 3
        \<lparr>xwindows = [1, 2], xdisplay = [2, 9, 1], discards = 0\<rparr> =
      \<lparr>xwindows = [1, 2], xdisplay = [], discards = 1\<rparr>"
    by code_simp
  note t = unclaimed_event_discarded_once [of example_process_event example_discard_event
        "\<lparr>xwindows = [1, 2], xdisplay = [2, 9, 1], discards = 0\<rparr>" 3]
  have u: "unclaimed example_process_event example_discard_event 3
        \<lparr>xwindows = [1, 2], xdisplay = [2, 9, 1], discards = 0\<rparr> = 1"
    using t unfolding r by simp
  show ?thesis using c1 c2 s1 s2 r u by (intro conjI)
qed

section \<open>The shutdown coordinator: facts\<close>

lemma those_None_iff: "those xs = None \<longleftrightarrow> None \<in> set xs"
  by (induction xs) (auto split: option.splits)

text \<open>
  Claim C7. One call of \<open>shutdown\<close> requests the cancellation of every task but its own,
  each once and before anything else, then waits for exactly these tasks in one
  \<^verbatim>\<open>gather\<close>, and stops the loop last, and only if the wait has ended: when a task never
  ends the call waits and the loop is not stopped. Whatever the cancelled tasks raise is
  a result of the \<^verbatim>\<open>gather\<close>: a call that is not itself cancelled while it waits raises
  nothing. (A call that is cancelled while it waits ends with its own
  \<^verbatim>\<open>CancelledError\<close> and does not stop the loop.)
\<close>

theorem shutdown_cancels_gathers_stops:
  "set (filter (\<lambda>task. task \<noteq> current_task) all_tasks) = set all_tasks - {current_task}
   \<and> fst (shutdown all_tasks current_task outcome cancelled) =
       map Cancel (filter (\<lambda>task. task \<noteq> current_task) all_tasks)
       @ Gather (filter (\<lambda>task. task \<noteq> current_task) all_tasks)
       # (if \<not> cancelled \<and> None \<notin> outcome ` (set all_tasks - {current_task})
          then [Loop_stop] else [])
   \<and> snd (shutdown all_tasks current_task outcome cancelled) =
       (if cancelled then Some (Some cancelled_error)
        else if None \<in> outcome ` (set all_tasks - {current_task}) then None
        else Some None)
   \<and> snd (shutdown all_tasks current_task outcome False) \<noteq> Some (Some e)"
proof -
  let ?ts = "filter (\<lambda>task. task \<noteq> current_task) all_tasks"
  let ?wait = "None \<in> outcome ` (set all_tasks - {current_task})"
  have s: "set ?ts = set all_tasks - {current_task}" by auto
  have g: "gather (map outcome ?ts) = None \<longleftrightarrow> ?wait"
    unfolding gather_def those_None_iff s [symmetric] by simp
  have c: "shutdown all_tasks current_task outcome True =
      (map Cancel ?ts @ [Gather ?ts], Some (Some cancelled_error))"
    by (simp add: shutdown_def Let_def)
  have w: "shutdown all_tasks current_task outcome False = (map Cancel ?ts @ [Gather ?ts], None)"
    if "?wait"
    using that g by (simp add: shutdown_def Let_def)
  have r: "shutdown all_tasks current_task outcome False =
      (map Cancel ?ts @ [Gather ?ts, Loop_stop], Some None)"
    if "\<not> ?wait"
  proof -
    from that g obtain results where "gather (map outcome ?ts) = Some results" by blast
    then show ?thesis by (simp add: shutdown_def Let_def)
  qed
  have f: "fst (shutdown all_tasks current_task outcome cancelled) =
       map Cancel ?ts @ Gather ?ts # (if \<not> cancelled \<and> \<not> ?wait then [Loop_stop] else [])"
  proof (cases cancelled)
    case True
    then show ?thesis using c by simp
  next
    case False
    then show ?thesis using w r by (cases ?wait) simp_all
  qed
  have e: "snd (shutdown all_tasks current_task outcome cancelled) =
       (if cancelled then Some (Some cancelled_error) else if ?wait then None else Some None)"
  proof (cases cancelled)
    case True
    then show ?thesis using c by simp
  next
    case False
    then show ?thesis using w r by (cases ?wait) simp_all
  qed
  have n: "snd (shutdown all_tasks current_task outcome False) \<noteq> Some (Some e)"
    using w r by (cases ?wait) simp_all
  show ?thesis using s f e n by (intro conjI)
qed

theorem shutdown_cancels_gathers_stops_witness:
  "shutdown [0, 1, 2] 2
     (\<lambda>t. if t = 0 then Some (Raised cancelled_error) else Some (Raised (runtime_error ''boom'')))
     False =
     ([Cancel 0, Cancel 1, Gather [0, 1], Loop_stop], Some None)
   \<and> shutdown [0, 1, 2] 2 (\<lambda>t. if t = 0 then None else Some Returned) False =
     ([Cancel 0, Cancel 1, Gather [0, 1]], None)
   \<and> snd (shutdown [0, 1, 2] 2
     (\<lambda>t. if t = 0 then Some (Raised cancelled_error) else Some (Raised (runtime_error ''boom'')))
     False) \<noteq> Some (Some (runtime_error ''boom''))"
proof -
  note t1 = shutdown_cancels_gathers_stops [of 2 "[0, 1, 2]"
     "\<lambda>t. if t = 0 then Some (Raised cancelled_error) else Some (Raised (runtime_error ''boom''))"
     False "runtime_error ''boom''"]
  have a: "shutdown [0, 1, 2] 2
     (\<lambda>t. if t = 0 then Some (Raised cancelled_error) else Some (Raised (runtime_error ''boom'')))
     False = ([Cancel 0, Cancel 1, Gather [0, 1], Loop_stop], Some None)"
    by (simp add: shutdown_def gather_def Let_def)
  have b: "shutdown [0, 1, 2] 2 (\<lambda>t. if t = 0 then None else Some Returned) False =
     ([Cancel 0, Cancel 1, Gather [0, 1]], None)"
    by (simp add: shutdown_def gather_def Let_def)
  have c: "snd (shutdown [0, 1, 2] 2
     (\<lambda>t. if t = 0 then Some (Raised cancelled_error) else Some (Raised (runtime_error ''boom'')))
     False) \<noteq> Some (Some (runtime_error ''boom''))"
    using t1 by (elim conjE)
  show ?thesis using a b c by (intro conjI)
qed

end
